theory Spec2Isabelle
  imports
    Complex_Main
    "HOL-Library.Word"
    "HOL-Library.Sublist"
    "HOL-Library.Char_ord"
    "HOL-Library.List_Lexorder"
begin

section \<open>Python values used by the STL scripts\<close>

text \<open>
  The two scripts \<^verbatim>\<open>analyze_stl.py\<close> and \<^verbatim>\<open>check_single_stl.py\<close> read a binary STL
  file with \<^verbatim>\<open>f.read\<close>, decode it with \<^verbatim>\<open>struct.unpack\<close> and fold the builtin
  \<^verbatim>\<open>min\<close> and \<^verbatim>\<open>max\<close> over the vertex coordinates. A byte is an 8-bit word. A Python
  float is a tag for NaN and the two infinities, or a sign bit and a magnitude
  (so that \<^verbatim>\<open>-0.0\<close> and \<^verbatim>\<open>0.0\<close> stay different values that compare equal).
\<close>

type_synonym byte = "8 word"

datatype pyfloat = NaN | NInf | Fin bool real | PInf

fun is_nan :: "pyfloat \<Rightarrow> bool" where
  "is_nan NaN = True"
| "is_nan _ = False"

definition fin_val :: "bool \<Rightarrow> real \<Rightarrow> real" where
  "fin_val s m = (if s then - m else m)"

text \<open>The comparisons of Python floats: IEEE 754, every comparison with NaN is false.\<close>

fun py_lt :: "pyfloat \<Rightarrow> pyfloat \<Rightarrow> bool" where
  "py_lt NaN _ = False"
| "py_lt _ NaN = False"
| "py_lt NInf NInf = False"
| "py_lt NInf _ = True"
| "py_lt PInf _ = False"
| "py_lt (Fin s m) NInf = False"
| "py_lt (Fin s m) PInf = True"
| "py_lt (Fin s m) (Fin t n) = (fin_val s m < fin_val t n)"

fun py_eq :: "pyfloat \<Rightarrow> pyfloat \<Rightarrow> bool" where
  "py_eq NInf NInf = True"
| "py_eq PInf PInf = True"
| "py_eq (Fin s m) (Fin t n) = (fin_val s m = fin_val t n)"
| "py_eq _ _ = False"

definition py_le :: "pyfloat \<Rightarrow> pyfloat \<Rightarrow> bool" where
  "py_le a b = (py_lt a b \<or> py_eq a b)"

text \<open>
  The builtins \<^verbatim>\<open>min(a, b)\<close> and \<^verbatim>\<open>max(a, b)\<close> keep the first argument and replace
  it by the second only when \<^verbatim>\<open>b < a\<close> (for \<^verbatim>\<open>min\<close>) or \<^verbatim>\<open>b > a\<close> (for \<^verbatim>\<open>max\<close>) holds.
\<close>

definition py_min :: "pyfloat \<Rightarrow> pyfloat \<Rightarrow> pyfloat" where
  "py_min a b = (if py_lt b a then b else a)"

definition py_max :: "pyfloat \<Rightarrow> pyfloat \<Rightarrow> pyfloat" where
  "py_max a b = (if py_lt a b then b else a)"

text \<open>
  The exceptions that can end a run: \<^verbatim>\<open>struct.error\<close>, and the \<^verbatim>\<open>OSError\<close> of \<^verbatim>\<open>open\<close>
  or \<^verbatim>\<open>os.listdir\<close> on a path that cannot be opened (no such file, a directory).
\<close>

datatype py_error = StructError | OSError

subsection \<open>struct.unpack\<close>

text \<open>A little-endian unsigned integer of any number of bytes.\<close>

definition le_nat :: "byte list \<Rightarrow> nat" where
  "le_nat bs = foldr (\<lambda>b n. unat b + 256 * n) bs 0"

text \<open>
  The value of an IEEE 754 binary32 bit pattern \<open>w < 2 ^ 32\<close>: sign in bit 31, eight
  exponent bits, 23 fraction bits. The conversion of this value to a Python float
  (binary64) is exact.
\<close>

definition f32_of_bits :: "nat \<Rightarrow> pyfloat" where
  "f32_of_bits w =
     (let s = (w div 2 ^ 31 mod 2 = 1);
          e = w div 2 ^ 23 mod 256;
          m = w mod 2 ^ 23
      in if e = 255 then (if m = 0 then (if s then NInf else PInf) else NaN)
         else if e = 0 then Fin s (real m * 2 / 2 ^ 150)
         else Fin s (real (2 ^ 23 + m) * 2 ^ e / 2 ^ 150))"

text \<open>\<^verbatim>\<open>struct.unpack("<I", d)[0]\<close>: raises \<^verbatim>\<open>struct.error\<close> unless \<open>d\<close> has 4 bytes.\<close>

definition unpack_I :: "byte list \<Rightarrow> py_error + nat" where
  "unpack_I d = (if length d \<noteq> 4 then Inl StructError else Inr (le_nat d))"

text \<open>\<^verbatim>\<open>struct.unpack("<fff", d)\<close>: raises \<^verbatim>\<open>struct.error\<close> unless \<open>d\<close> has 12 bytes.\<close>

definition unpack_fff :: "byte list \<Rightarrow> py_error + (pyfloat \<times> pyfloat \<times> pyfloat)" where
  "unpack_fff d =
     (if length d \<noteq> 12 then Inl StructError
      else Inr (f32_of_bits (le_nat (take 4 d)),
                f32_of_bits (le_nat (take 4 (drop 4 d))),
                f32_of_bits (le_nat (take 4 (drop 8 d)))))"

text \<open>\<^verbatim>\<open>struct.unpack('<3f', d)\<close>, whose tuple \<^verbatim>\<open>check_single_stl.py\<close> reads by index.\<close>

definition unpack_3f :: "byte list \<Rightarrow> py_error + pyfloat list" where
  "unpack_3f d =
     (case unpack_fff d of Inl e \<Rightarrow> Inl e | Inr (x, y, z) \<Rightarrow> Inr [x, y, z])"

subsection \<open>File objects\<close>

text \<open>
  A file object opened with mode \<^verbatim>\<open>'rb'\<close>: the bytes of the file, the read position and
  the \<^verbatim>\<open>closed\<close> attribute. \<^verbatim>\<open>f.read(n)\<close> returns the next \<open>n\<close> bytes, or fewer at
  the end of the file (never an error), and advances the position by what it returned.
\<close>

record pyfile =
  fname :: string
  content :: "byte list"
  pos :: nat
  closed :: bool

definition f_read :: "nat \<Rightarrow> pyfile \<Rightarrow> byte list \<times> pyfile" where
  "f_read n f =
     (let d = take n (drop (pos f) (content f)) in (d, f\<lparr>pos := pos f + length d\<rparr>))"

type_synonym filesystem = "string \<rightharpoonup> byte list"

text \<open>
  \<^verbatim>\<open>open(name, 'rb')\<close>: an exception when the file system has no file of that name,
  otherwise a file object at position 0 that is not closed.
\<close>

definition opened :: "string \<Rightarrow> byte list \<Rightarrow> pyfile" where
  "opened name bs = \<lparr>fname = name, content = bs, pos = 0, closed = False\<rparr>"

definition py_open :: "filesystem \<Rightarrow> string \<Rightarrow> py_error + pyfile" where
  "py_open fs name =
     (case fs name of
        None \<Rightarrow> Inl OSError
      | Some bs \<Rightarrow> Inr (opened name bs))"

subsection \<open>Standard output and the outcome of a run\<close>

text \<open>
  One constructor per \<^verbatim>\<open>print\<close> call of the two scripts, carrying the values that the
  f-string formats (the decimal rendering \<^verbatim>\<open>:.3f\<close> is not modelled).
\<close>

datatype out_line =
    NumTriangles nat
  | BoundingBox
  | AxisLine char pyfloat pyfloat pyfloat
  | NameLine string
  | InfoLine nat pyfloat pyfloat pyfloat

text \<open>
  What a run leaves behind: the exception that ended it or normal completion, the
  lines printed, and the file objects it created, each in its final state.
\<close>

record run =
  outcome :: "py_error + unit"
  stdout :: "out_line list"
  files :: "pyfile list"

text \<open>
  \<^verbatim>\<open>with open(name, 'rb') as f: body\<close>. When \<^verbatim>\<open>open\<close> raises, no file object exists.
  Otherwise the body runs and the file is closed when the block is left, normally or
  by an exception.
\<close>

definition with_open ::
  "filesystem \<Rightarrow> string \<Rightarrow> (pyfile \<Rightarrow> (py_error + unit) \<times> out_line list \<times> pyfile) \<Rightarrow> run" where
  "with_open fs name body =
     (case py_open fs name of
        Inl e \<Rightarrow> \<lparr>outcome = Inl e, stdout = [], files = []\<rparr>
      | Inr f \<Rightarrow>
          (case body f of
             (r, out, f') \<Rightarrow> \<lparr>outcome = r, stdout = out, files = [f'\<lparr>closed := True\<rparr>]\<rparr>))"

section \<open>analyze\_stl.py\<close>

record bbox =
  min_x :: pyfloat
  max_x :: pyfloat
  min_y :: pyfloat
  max_y :: pyfloat
  min_z :: pyfloat
  max_z :: pyfloat

text \<open>Lines 12 and 13: the six running extrema start at the infinities.\<close>

definition bbox0 :: bbox where
  "bbox0 = \<lparr>min_x = PInf, max_x = NInf, min_y = PInf, max_y = NInf, min_z = PInf, max_z = NInf\<rparr>"

text \<open>Lines 19 to 21: one vertex.\<close>

fun upd_vertex :: "bbox \<Rightarrow> pyfloat \<times> pyfloat \<times> pyfloat \<Rightarrow> bbox" where
  "upd_vertex b (x, y, z) =
     \<lparr>min_x = py_min (min_x b) x, max_x = py_max (max_x b) x,
      min_y = py_min (min_y b) y, max_y = py_max (max_y b) y,
      min_z = py_min (min_z b) z, max_z = py_max (max_z b) z\<rparr>"

text \<open>Lines 17 to 21: \<^verbatim>\<open>for _ in range(3)\<close>, with the number of iterations left.\<close>

fun vertex_loop :: "nat \<Rightarrow> pyfile \<Rightarrow> bbox \<Rightarrow> (py_error + bbox) \<times> pyfile" where
  "vertex_loop 0 f b = (Inr b, f)"
| "vertex_loop (Suc k) f b =
     (case f_read 12 f of
        (d, f1) \<Rightarrow>
          (case unpack_fff d of
             Inl e \<Rightarrow> (Inl e, f1)
           | Inr v \<Rightarrow> vertex_loop k f1 (upd_vertex b v)))"

text \<open>
  Lines 15 to 22: \<^verbatim>\<open>for _ in range(num_triangles)\<close>. The results of the reads of the
  normal and of the attribute are dropped, whatever their length.
\<close>

fun triangle_loop :: "nat \<Rightarrow> pyfile \<Rightarrow> bbox \<Rightarrow> (py_error + bbox) \<times> pyfile" where
  "triangle_loop 0 f b = (Inr b, f)"
| "triangle_loop (Suc k) f b =
     (case f_read 12 f of
        (normal, f1) \<Rightarrow>
          (case vertex_loop 3 f1 b of
             (Inl e, f2) \<Rightarrow> (Inl e, f2)
           | (Inr b', f2) \<Rightarrow>
               (case f_read 2 f2 of (attribute, f3) \<Rightarrow> triangle_loop k f3 b')))"

text \<open>
  Lines 8 to 22, up to the end of the loop: the count and the extrema, with the lines
  printed so far. The count is printed before the first triangle is read.
\<close>

definition analyze_scan ::
  "pyfile \<Rightarrow> (py_error + nat \<times> bbox) \<times> out_line list \<times> pyfile" where
  "analyze_scan f =
     (case f_read 80 f of
        (header, f1) \<Rightarrow>
          (case f_read 4 f1 of
             (d, f2) \<Rightarrow>
               (case unpack_I d of
                  Inl e \<Rightarrow> (Inl e, [], f2)
                | Inr num_triangles \<Rightarrow>
                    (case triangle_loop num_triangles f2 bbox0 of
                       (Inl e, f3) \<Rightarrow> (Inl e, [NumTriangles num_triangles], f3)
                     | (Inr b, f3) \<Rightarrow>
                         (Inr (num_triangles, b), [NumTriangles num_triangles], f3)))))"

text \<open>
  Lines 24 to 27. The subtraction of two Python floats (IEEE 754 binary64, rounded to
  nearest) is the parameter \<open>fsub\<close>: nothing below depends on how it rounds.
\<close>

definition analyze_report :: "(pyfloat \<Rightarrow> pyfloat \<Rightarrow> pyfloat) \<Rightarrow> bbox \<Rightarrow> out_line list" where
  "analyze_report fsub b =
     [BoundingBox,
      AxisLine CHR ''X'' (min_x b) (max_x b) (fsub (max_x b) (min_x b)),
      AxisLine CHR ''Y'' (min_y b) (max_y b) (fsub (max_y b) (min_y b)),
      AxisLine CHR ''Z'' (min_z b) (max_z b) (fsub (max_z b) (min_z b))]"

definition analyze_body ::
  "(pyfloat \<Rightarrow> pyfloat \<Rightarrow> pyfloat) \<Rightarrow> pyfile \<Rightarrow> (py_error + unit) \<times> out_line list \<times> pyfile" where
  "analyze_body fsub f =
     (case analyze_scan f of
        (Inl e, out, f') \<Rightarrow> (Inl e, out, f')
      | (Inr (n, b), out, f') \<Rightarrow> (Inr (), out @ analyze_report fsub b, f'))"

text \<open>Line 5 and the \<^verbatim>\<open>with\<close> block: the whole script, given \<^verbatim>\<open>sys.argv\<close>.\<close>

definition analyze_stl :: "(pyfloat \<Rightarrow> pyfloat \<Rightarrow> pyfloat) \<Rightarrow> filesystem \<Rightarrow> string list \<Rightarrow> run" where
  "analyze_stl fsub fs argv =
     (let filename =
        (if length argv > 1 then argv ! 1
         else ''output/toroidal_one_turn_rectangular_wire.stl'')
      in with_open fs filename (analyze_body fsub))"

section \<open>check\_single\_stl.py\<close>

text \<open>Lines 15 to 17: \<^verbatim>\<open>for i in range(3)\<close> over the two lists of three extrema.\<close>

definition gi_upd :: "pyfloat list \<times> pyfloat list \<Rightarrow> pyfloat list \<Rightarrow> pyfloat list \<times> pyfloat list" where
  "gi_upd mm v =
     foldl (\<lambda>(mins, maxs) i.
              (mins[i := py_min (mins ! i) (v ! i)], maxs[i := py_max (maxs ! i) (v ! i)]))
       mm [0 ..< 3]"

fun gi_vertex_loop ::
  "nat \<Rightarrow> pyfile \<Rightarrow> pyfloat list \<times> pyfloat list \<Rightarrow> (py_error + pyfloat list \<times> pyfloat list) \<times> pyfile" where
  "gi_vertex_loop 0 f mm = (Inr mm, f)"
| "gi_vertex_loop (Suc k) f mm =
     (case f_read 12 f of
        (d, f1) \<Rightarrow>
          (case unpack_3f d of
             Inl e \<Rightarrow> (Inl e, f1)
           | Inr v \<Rightarrow> gi_vertex_loop k f1 (gi_upd mm v)))"

fun gi_triangle_loop ::
  "nat \<Rightarrow> pyfile \<Rightarrow> pyfloat list \<times> pyfloat list \<Rightarrow> (py_error + pyfloat list \<times> pyfloat list) \<times> pyfile" where
  "gi_triangle_loop 0 f mm = (Inr mm, f)"
| "gi_triangle_loop (Suc k) f mm =
     (case f_read 12 f of
        (normal, f1) \<Rightarrow>
          (case gi_vertex_loop 3 f1 mm of
             (Inl e, f2) \<Rightarrow> (Inl e, f2)
           | (Inr mm', f2) \<Rightarrow>
               (case f_read 2 f2 of (attribute, f3) \<Rightarrow> gi_triangle_loop k f3 mm')))"

text \<open>Lines 7 to 18 of \<^verbatim>\<open>get_info\<close>: the count and the two lists of extrema.\<close>

definition gi_scan :: "pyfile \<Rightarrow> (py_error + nat \<times> pyfloat list \<times> pyfloat list) \<times> pyfile" where
  "gi_scan f =
     (case f_read 80 f of
        (header, f1) \<Rightarrow>
          (case f_read 4 f1 of
             (d, f2) \<Rightarrow>
               (case unpack_I d of
                  Inl e \<Rightarrow> (Inl e, f2)
                | Inr n \<Rightarrow>
                    (case gi_triangle_loop n f2 (replicate 3 PInf, replicate 3 NInf) of
                       (Inl e, f3) \<Rightarrow> (Inl e, f3)
                     | (Inr (mins, maxs), f3) \<Rightarrow> (Inr (n, mins, maxs), f3)))))"

text \<open>\<^verbatim>\<open>os.path.basename\<close>: what follows the last slash.\<close>

definition basename :: "string \<Rightarrow> string" where
  "basename p = rev (takeWhile (\<lambda>c. c \<noteq> CHR ''/'') (rev p))"

text \<open>Lines 19 to 23 of \<^verbatim>\<open>get_info\<close>.\<close>

definition gi_report ::
  "(pyfloat \<Rightarrow> pyfloat \<Rightarrow> pyfloat) \<Rightarrow> string \<Rightarrow> nat \<Rightarrow> pyfloat list \<Rightarrow> pyfloat list \<Rightarrow> out_line list" where
  "gi_report fsub name n mins maxs =
     (let dx = fsub (maxs ! 0) (mins ! 0);
          dy = fsub (maxs ! 1) (mins ! 1);
          dz = fsub (maxs ! 2) (mins ! 2)
      in [NameLine (basename name), InfoLine n dx dy dz])"

definition gi_body ::
  "(pyfloat \<Rightarrow> pyfloat \<Rightarrow> pyfloat) \<Rightarrow> pyfile \<Rightarrow> (py_error + unit) \<times> out_line list \<times> pyfile" where
  "gi_body fsub f =
     (case gi_scan f of
        (Inl e, f') \<Rightarrow> (Inl e, [], f')
      | (Inr (n, mins, maxs), f') \<Rightarrow> (Inr (), gi_report fsub (fname f) n mins maxs, f'))"

definition get_info :: "(pyfloat \<Rightarrow> pyfloat \<Rightarrow> pyfloat) \<Rightarrow> filesystem \<Rightarrow> string \<Rightarrow> run" where
  "get_info fsub fs name = with_open fs name (gi_body fsub)"

text \<open>\<^verbatim>\<open>f.endswith('.stl')\<close> and \<^verbatim>\<open>os.path.join(output_dir, f)\<close> for a plain file name.\<close>

definition endswith :: "string \<Rightarrow> string \<Rightarrow> bool" where
  "endswith s suf = (length suf \<le> length s \<and> drop (length s - length suf) s = suf)"

definition path_join :: "string \<Rightarrow> string \<Rightarrow> string" where
  "path_join d f = d @ ''/'' @ f"

text \<open>
  Lines 30 to 32: the loop over the sorted names. An exception of \<^verbatim>\<open>get_info\<close> ends
  the loop; the output and the file objects of the calls made so far stay.
\<close>

fun scan_loop :: "(pyfloat \<Rightarrow> pyfloat \<Rightarrow> pyfloat) \<Rightarrow> filesystem \<Rightarrow> string \<Rightarrow> string list \<Rightarrow> run" where
  "scan_loop fsub fs output_dir [] = \<lparr>outcome = Inr (), stdout = [], files = []\<rparr>"
| "scan_loop fsub fs output_dir (f # rest) =
     (if endswith f ''.stl'' then
        (let r = get_info fsub fs (path_join output_dir f) in
         case outcome r of
           Inl e \<Rightarrow> r
         | Inr u \<Rightarrow>
             (let r' = scan_loop fsub fs output_dir rest in
              \<lparr>outcome = outcome r', stdout = stdout r @ stdout r', files = files r @ files r'\<rparr>))
      else scan_loop fsub fs output_dir rest)"

text \<open>
  Lines 25 to 32: the script. \<open>listdir\<close> gives the names in a directory in the order
  of the file system, or nothing when the directory cannot be listed. \<^verbatim>\<open>sorted\<close> compares
  strings by code point, as the lexicographic order on character lists does (also on
  the bytes of UTF-8, which keep the order of the code points).
\<close>

definition check_single_stl ::
  "(pyfloat \<Rightarrow> pyfloat \<Rightarrow> pyfloat) \<Rightarrow> filesystem \<Rightarrow> (string \<rightharpoonup> string list) \<Rightarrow> string list \<Rightarrow> run" where
  "check_single_stl fsub fs listdir argv =
     (if length argv > 1 then get_info fsub fs (argv ! 1)
      else
        (let output_dir = ''output'' in
         case listdir output_dir of
           None \<Rightarrow> \<lparr>outcome = Inl OSError, stdout = [], files = []\<rparr>
         | Some names \<Rightarrow> scan_loop fsub fs output_dir (sort names)))"

section \<open>Reference definitions\<close>

text \<open>
  What the claims speak about, defined on the bytes of a file and independently of the
  loops above: the count field, the vertices of the records, the box they fold to.
\<close>

text \<open>The unsigned 32-bit little-endian integer stored at bytes 80 to 83.\<close>

definition stl_count :: "byte list \<Rightarrow> nat" where
  "stl_count c = le_nat (take 4 (drop 80 c))"

text \<open>A file that holds the 84 bytes of the preamble and all the 50-byte records.\<close>

definition well_formed :: "byte list \<Rightarrow> bool" where
  "well_formed c = (84 + 50 * stl_count c \<le> length c)"

text \<open>The three coordinates stored in the 12 bytes at offset \<open>q\<close>.\<close>

definition vertex_at :: "byte list \<Rightarrow> nat \<Rightarrow> pyfloat \<times> pyfloat \<times> pyfloat" where
  "vertex_at c q =
     (f32_of_bits (le_nat (take 4 (drop q c))),
      f32_of_bits (le_nat (take 4 (drop (q + 4) c))),
      f32_of_bits (le_nat (take 4 (drop (q + 8) c))))"

text \<open>
  The vertices of \<open>k\<close> records that start at offset \<open>q\<close>: in each record the normal
  takes 12 bytes, the vertices follow at 12, 24 and 36, the next record at 50.
\<close>

fun verts_from :: "byte list \<Rightarrow> nat \<Rightarrow> nat \<Rightarrow> (pyfloat \<times> pyfloat \<times> pyfloat) list" where
  "verts_from c q 0 = []"
| "verts_from c q (Suc k) =
     [vertex_at c (q + 12), vertex_at c (q + 24), vertex_at c (q + 36)] @ verts_from c (q + 50) k"

definition stl_verts :: "byte list \<Rightarrow> (pyfloat \<times> pyfloat \<times> pyfloat) list" where
  "stl_verts c = verts_from c 84 (stl_count c)"

definition stl_bbox :: "byte list \<Rightarrow> bbox" where
  "stl_bbox c = foldl upd_vertex bbox0 (stl_verts c)"

text \<open>The 36 bytes of the three vertices of record \<open>i\<close>.\<close>

definition vertex_bytes :: "byte list \<Rightarrow> nat \<Rightarrow> byte list" where
  "vertex_bytes c i = take 36 (drop (84 + 50 * i + 12) c)"

text \<open>The three vertices that 36 such bytes hold.\<close>

definition verts_of_bytes :: "byte list \<Rightarrow> (pyfloat \<times> pyfloat \<times> pyfloat) list" where
  "verts_of_bytes d = [vertex_at d 0, vertex_at d 12, vertex_at d 24]"

text \<open>The two lists of \<^verbatim>\<open>check_single_stl.py\<close> that hold the extrema of a box.\<close>

definition lists_of :: "bbox \<Rightarrow> pyfloat list \<times> pyfloat list" where
  "lists_of b = ([min_x b, min_y b, min_z b], [max_x b, max_y b, max_z b])"

text \<open>
  Both scripts get through their loops on the file object \<open>f\<close> and hold the count
  \<open>n\<close> and the extrema \<open>b\<close>; both scripts end with the exception \<open>e\<close>.
\<close>

definition extracts :: "pyfile \<Rightarrow> nat \<Rightarrow> bbox \<Rightarrow> bool" where
  "extracts f n b =
     (fst (analyze_scan f) = Inr (n, b) \<and>
      fst (gi_scan f) = Inr (n, [min_x b, min_y b, min_z b], [max_x b, max_y b, max_z b]))"

definition fails :: "pyfile \<Rightarrow> py_error \<Rightarrow> bool" where
  "fails f e = (fst (analyze_scan f) = Inl e \<and> fst (gi_scan f) = Inl e)"

subsection \<open>Synthesizing a binary STL file\<close>

text \<open>
  \<^verbatim>\<open>struct.pack\<close> of a 32-bit pattern, least significant byte first. A coordinate is
  given by its binary32 bit pattern, a facet by its normal, its three vertices and its
  two attribute bytes.
\<close>

type_synonym vec3 = "32 word \<times> 32 word \<times> 32 word"

definition pack_u32 :: "32 word \<Rightarrow> byte list" where
  "pack_u32 w =
     (let n = unat w in [of_nat n, of_nat (n div 2 ^ 8), of_nat (n div 2 ^ 16), of_nat (n div 2 ^ 24)])"

fun pack_vec3 :: "vec3 \<Rightarrow> byte list" where
  "pack_vec3 (a, b, c) = pack_u32 a @ pack_u32 b @ pack_u32 c"

definition f32_val :: "32 word \<Rightarrow> pyfloat" where
  "f32_val w = f32_of_bits (unat w)"

fun vec3_val :: "vec3 \<Rightarrow> pyfloat \<times> pyfloat \<times> pyfloat" where
  "vec3_val (a, b, c) = (f32_val a, f32_val b, f32_val c)"

record facet =
  normal :: vec3
  v1 :: vec3
  v2 :: vec3
  v3 :: vec3
  attr :: "byte \<times> byte"

definition mk_facet :: "facet \<Rightarrow> byte list" where
  "mk_facet t =
     pack_vec3 (normal t) @ pack_vec3 (v1 t) @ pack_vec3 (v2 t) @ pack_vec3 (v3 t) @
     [fst (attr t), snd (attr t)]"

definition facet_verts :: "facet \<Rightarrow> (pyfloat \<times> pyfloat \<times> pyfloat) list" where
  "facet_verts t = [vec3_val (v1 t), vec3_val (v2 t), vec3_val (v3 t)]"

definition mk_stl :: "byte list \<Rightarrow> facet list \<Rightarrow> byte list" where
  "mk_stl header tris = header @ pack_u32 (of_nat (length tris)) @ concat (map mk_facet tris)"

subsection \<open>Boxes\<close>

text \<open>
  The coordinates \<open>xs\<close> of one axis span the interval from \<open>lo\<close> to \<open>hi\<close>: every
  coordinate lies in it and both ends are taken. A NaN lies in no interval, and no
  interval is spanned by nothing.
\<close>

definition axis_span :: "pyfloat list \<Rightarrow> pyfloat \<Rightarrow> pyfloat \<Rightarrow> bool" where
  "axis_span xs lo hi =
     ((\<forall>x\<in>set xs. py_le lo x \<and> py_le x hi) \<and> (\<exists>x\<in>set xs. py_eq x lo) \<and> (\<exists>x\<in>set xs. py_eq x hi))"

definition spans :: "(pyfloat \<times> pyfloat \<times> pyfloat) list \<Rightarrow> bbox \<Rightarrow> bool" where
  "spans vs B =
     (axis_span (map fst vs) (min_x B) (max_x B) \<and>
      axis_span (map (fst \<circ> snd) vs) (min_y B) (max_y B) \<and>
      axis_span (map (snd \<circ> snd) vs) (min_z B) (max_z B))"

text \<open>Equality of two boxes by \<^verbatim>\<open>==\<close> on each of the six floats.\<close>

definition box_eq :: "bbox \<Rightarrow> bbox \<Rightarrow> bool" where
  "box_eq b B =
     (py_eq (min_x b) (min_x B) \<and> py_eq (max_x b) (max_x B) \<and>
      py_eq (min_y b) (min_y B) \<and> py_eq (max_y b) (max_y B) \<and>
      py_eq (min_z b) (min_z B) \<and> py_eq (max_z b) (max_z B))"

text \<open>
  What the loops leave on one axis: the two initial infinities when every coordinate
  is a NaN (or there is none), and otherwise a minimum that is at most the maximum.
\<close>

definition axis_ok :: "pyfloat list \<Rightarrow> pyfloat \<Rightarrow> pyfloat \<Rightarrow> bool" where
  "axis_ok xs lo hi =
     (if \<forall>x\<in>set xs. is_nan x then lo = PInf \<and> hi = NInf else py_le lo hi)"

subsection \<open>A subtraction for the examples\<close>

text \<open>
  The difference of two floats without the rounding of binary64. It is the result of
  Python's \<^verbatim>\<open>-\<close> whenever the exact difference is a binary64 number, as it is in the
  examples below. A zero difference is \<^verbatim>\<open>-0.0\<close> only for \<^verbatim>\<open>-0.0 - 0.0\<close>.
\<close>

fun fsub_unrounded :: "pyfloat \<Rightarrow> pyfloat \<Rightarrow> pyfloat" where
  "fsub_unrounded NaN _ = NaN"
| "fsub_unrounded _ NaN = NaN"
| "fsub_unrounded PInf PInf = NaN"
| "fsub_unrounded NInf NInf = NaN"
| "fsub_unrounded PInf _ = PInf"
| "fsub_unrounded NInf _ = NInf"
| "fsub_unrounded (Fin s m) PInf = NInf"
| "fsub_unrounded (Fin s m) NInf = PInf"
| "fsub_unrounded (Fin s m) (Fin t n) =
     (let d = fin_val s m - fin_val t n
      in if d = 0 then Fin (s \<and> \<not> t \<and> m = 0 \<and> n = 0) 0 else Fin (d < 0) \<bar>d\<bar>)"

subsection \<open>Example inputs\<close>

text \<open>
  One facet with the vertices \<open>(1, -2, 0)\<close>, \<open>(2, 1, 0.5)\<close> and \<open>(0, 0, -1)\<close>, the
  box they span, and the file synthesized from it written out byte by byte, without
  and with the two attribute bytes of its record.
\<close>

definition ex_header :: "byte list" where
  "ex_header = replicate 80 0"

definition ex_facet :: facet where
  "ex_facet =
     \<lparr>normal = (0, 0, 0),
      v1 = (0x3F800000, 0xC0000000, 0),
      v2 = (0x40000000, 0x3F800000, 0x3F000000),
      v3 = (0, 0, 0xBF800000),
      attr = (0, 0)\<rparr>"

definition ex_box :: bbox where
  "ex_box =
     \<lparr>min_x = Fin False 0, max_x = Fin False 2,
      min_y = Fin True 2, max_y = Fin False 1,
      min_z = Fin True 1, max_z = Fin False (1 / 2)\<rparr>"

definition ex_short :: "byte list" where
  "ex_short = replicate 80 0 @ [1, 0, 0, 0] @ replicate 12 0 @
     [0, 0, 0x80, 0x3F,  0, 0, 0, 0xC0,  0, 0, 0, 0,
      0, 0, 0, 0x40,  0, 0, 0x80, 0x3F,  0, 0, 0, 0x3F,
      0, 0, 0, 0,  0, 0, 0, 0,  0, 0, 0x80, 0xBF]"

definition ex_stl :: "byte list" where
  "ex_stl = ex_short @ [0, 0]"

text \<open>
  The same vertices behind another header, another normal and other attribute bytes;
  the file cut inside its first vertex; the preamble alone, with the count 1; and a
  file of no triangles.
\<close>

definition ex_other :: "byte list" where
  "ex_other = replicate 80 0xFF @ [1, 0, 0, 0] @ replicate 12 7 @
     [0, 0, 0x80, 0x3F,  0, 0, 0, 0xC0,  0, 0, 0, 0,
      0, 0, 0, 0x40,  0, 0, 0x80, 0x3F,  0, 0, 0, 0x3F,
      0, 0, 0, 0,  0, 0, 0, 0,  0, 0, 0x80, 0xBF] @ [1, 2]"

definition ex_cut :: "byte list" where
  "ex_cut = replicate 80 0 @ [1, 0, 0, 0] @ replicate 16 0"

definition ex_count_only :: "byte list" where
  "ex_count_only = replicate 80 0 @ [1, 0, 0, 0]"

definition ex_empty :: "byte list" where
  "ex_empty = replicate 80 0 @ [0, 0, 0, 0]"

text \<open>One facet whose nine coordinates are all the NaN \<^verbatim>\<open>0x7FC00000\<close>.\<close>

definition ex_nan :: "byte list" where
  "ex_nan = replicate 80 0 @ [1, 0, 0, 0] @ replicate 12 0 @
     [0, 0, 0xC0, 0x7F,  0, 0, 0xC0, 0x7F,  0, 0, 0xC0, 0x7F,
      0, 0, 0xC0, 0x7F,  0, 0, 0xC0, 0x7F,  0, 0, 0xC0, 0x7F,
      0, 0, 0xC0, 0x7F,  0, 0, 0xC0, 0x7F,  0, 0, 0xC0, 0x7F] @ [0, 0]"

text \<open>
  A directory \<^verbatim>\<open>output\<close> whose listing gives \<^verbatim>\<open>b.stl\<close> before \<^verbatim>\<open>a.stl\<close>, both files
  of no triangles.
\<close>

definition ex_dir_fs :: filesystem where
  "ex_dir_fs = [''output/a.stl'' \<mapsto> ex_empty, ''output/b.stl'' \<mapsto> ex_empty]"

definition ex_listdir :: "string \<rightharpoonup> string list" where
  "ex_listdir = [''output'' \<mapsto> [''b.stl'', ''notes.txt'', ''a.stl'']]"

section \<open>Lemmas\<close>

subsection \<open>The order of the floats that are not NaN\<close>

lemma py_lt_not_nan: "py_lt a b \<Longrightarrow> \<not> is_nan a \<and> \<not> is_nan b"
  by (cases a; cases b) auto

lemma py_eq_not_nan: "py_eq a b \<Longrightarrow> \<not> is_nan a \<and> \<not> is_nan b"
  by (cases a; cases b) auto

lemma py_le_not_nan: "py_le a b \<Longrightarrow> \<not> is_nan a \<and> \<not> is_nan b"
  unfolding py_le_def using py_lt_not_nan py_eq_not_nan by blast

lemma py_le_refl: "\<not> is_nan a \<Longrightarrow> py_le a a"
  by (cases a) (auto simp: py_le_def)

lemma py_le_trans: "py_le a b \<Longrightarrow> py_le b c \<Longrightarrow> py_le a c"
  by (cases a; cases b; cases c) (auto simp: py_le_def)

lemma py_le_total: "\<not> is_nan a \<Longrightarrow> \<not> is_nan b \<Longrightarrow> py_lt b a \<or> py_le a b"
  by (cases a; cases b) (auto simp: py_le_def)

lemma py_lt_imp_le: "py_lt a b \<Longrightarrow> py_le a b"
  by (simp add: py_le_def)

lemma py_le_antisym: "py_le a b \<Longrightarrow> py_le b a \<Longrightarrow> py_eq a b"
  by (cases a; cases b) (auto simp: py_le_def)

lemma py_eq_sym: "py_eq a b \<Longrightarrow> py_eq b a"
  by (cases a; cases b) auto

lemma py_eq_le_trans: "py_eq a b \<Longrightarrow> py_le b c \<Longrightarrow> py_le a c"
  by (cases a; cases b; cases c) (auto simp: py_le_def)

lemma py_le_eq_trans: "py_le a b \<Longrightarrow> py_eq b c \<Longrightarrow> py_le a c"
  by (cases a; cases b; cases c) (auto simp: py_le_def)

lemma py_le_PInf: "\<not> is_nan a \<Longrightarrow> py_le a PInf"
  by (cases a) (auto simp: py_le_def)

lemma py_le_NInf: "\<not> is_nan a \<Longrightarrow> py_le NInf a"
  by (cases a) (auto simp: py_le_def)

subsection \<open>Folding min and max\<close>

text \<open>A running extremum that does not start as a NaN never becomes one.\<close>

lemma py_min_not_nan: "\<not> is_nan m \<Longrightarrow> \<not> is_nan (py_min m x)"
  using py_lt_not_nan by (auto simp: py_min_def)

lemma py_max_not_nan: "\<not> is_nan m \<Longrightarrow> \<not> is_nan (py_max m x)"
  using py_lt_not_nan by (auto simp: py_max_def)

lemma py_min_le_old: "\<not> is_nan m \<Longrightarrow> py_le (py_min m x) m"
  by (auto simp: py_min_def py_le_refl py_lt_imp_le)

lemma py_max_ge_old: "\<not> is_nan m \<Longrightarrow> py_le m (py_max m x)"
  by (auto simp: py_max_def py_le_refl py_lt_imp_le)

lemma py_min_le_new: "\<not> is_nan m \<Longrightarrow> \<not> is_nan x \<Longrightarrow> py_le (py_min m x) x"
  using py_le_total [of m x] by (auto simp: py_min_def py_le_refl)

lemma py_max_ge_new: "\<not> is_nan m \<Longrightarrow> \<not> is_nan x \<Longrightarrow> py_le x (py_max m x)"
  using py_le_total [of x m] by (auto simp: py_max_def py_le_refl)

lemma foldl_min_not_nan: "\<not> is_nan m \<Longrightarrow> \<not> is_nan (foldl py_min m xs)"
  by (induction xs arbitrary: m) (auto simp: py_min_not_nan)

lemma foldl_max_not_nan: "\<not> is_nan m \<Longrightarrow> \<not> is_nan (foldl py_max m xs)"
  by (induction xs arbitrary: m) (auto simp: py_max_not_nan)

lemma foldl_min_le_start: "\<not> is_nan m \<Longrightarrow> py_le (foldl py_min m xs) m"
proof (induction xs arbitrary: m)
  case Nil
  then show ?case by (simp add: py_le_refl)
next
  case (Cons x xs)
  have "py_le (foldl py_min (py_min m x) xs) (py_min m x)"
    using Cons by (simp add: py_min_not_nan)
  then show ?case
    using py_le_trans py_min_le_old [OF Cons.prems] by auto
qed

lemma foldl_max_ge_start: "\<not> is_nan m \<Longrightarrow> py_le m (foldl py_max m xs)"
proof (induction xs arbitrary: m)
  case Nil
  then show ?case by (simp add: py_le_refl)
next
  case (Cons x xs)
  have "py_le (py_max m x) (foldl py_max (py_max m x) xs)"
    using Cons by (simp add: py_max_not_nan)
  then show ?case
    using py_le_trans py_max_ge_old [OF Cons.prems] by auto
qed

lemma foldl_min_le_elem:
  "\<not> is_nan m \<Longrightarrow> x \<in> set xs \<Longrightarrow> \<not> is_nan x \<Longrightarrow> py_le (foldl py_min m xs) x"
proof (induction xs arbitrary: m)
  case Nil
  then show ?case by simp
next
  case (Cons y ys)
  have nn: "\<not> is_nan (py_min m y)" using Cons.prems(1) by (rule py_min_not_nan)
  show ?case
  proof (cases "x = y")
    case True
    have "py_le (foldl py_min (py_min m y) ys) (py_min m y)"
      using nn by (rule foldl_min_le_start)
    moreover have "py_le (py_min m y) x"
      using True Cons.prems by (simp add: py_min_le_new)
    ultimately show ?thesis using py_le_trans by auto
  next
    case False
    then have "x \<in> set ys" using Cons.prems by simp
    then show ?thesis using Cons.IH [OF nn _ Cons.prems(3)] by simp
  qed
qed

lemma foldl_max_ge_elem:
  "\<not> is_nan m \<Longrightarrow> x \<in> set xs \<Longrightarrow> \<not> is_nan x \<Longrightarrow> py_le x (foldl py_max m xs)"
proof (induction xs arbitrary: m)
  case Nil
  then show ?case by simp
next
  case (Cons y ys)
  have nn: "\<not> is_nan (py_max m y)" using Cons.prems(1) by (rule py_max_not_nan)
  show ?case
  proof (cases "x = y")
    case True
    have "py_le (py_max m y) (foldl py_max (py_max m y) ys)"
      using nn by (rule foldl_max_ge_start)
    moreover have "py_le x (py_max m y)"
      using True Cons.prems by (simp add: py_max_ge_new)
    ultimately show ?thesis using py_le_trans by auto
  next
    case False
    then have "x \<in> set ys" using Cons.prems by simp
    then show ?thesis using Cons.IH [OF nn _ Cons.prems(3)] by simp
  qed
qed

lemma foldl_min_cases: "foldl py_min m xs = m \<or> foldl py_min m xs \<in> set xs"
proof (induction xs arbitrary: m)
  case Nil
  then show ?case by simp
next
  case (Cons y ys)
  show ?case using Cons.IH [of "py_min m y"] by (auto simp: py_min_def split: if_splits)
qed

lemma foldl_max_cases: "foldl py_max m xs = m \<or> foldl py_max m xs \<in> set xs"
proof (induction xs arbitrary: m)
  case Nil
  then show ?case by simp
next
  case (Cons y ys)
  show ?case using Cons.IH [of "py_max m y"] by (auto simp: py_max_def split: if_splits)
qed

lemma foldl_min_all_nan: "\<forall>x\<in>set xs. is_nan x \<Longrightarrow> foldl py_min m xs = m"
  by (induction xs arbitrary: m) (auto simp: py_min_def dest: py_lt_not_nan)

lemma foldl_max_all_nan: "\<forall>x\<in>set xs. is_nan x \<Longrightarrow> foldl py_max m xs = m"
  by (induction xs arbitrary: m) (auto simp: py_max_def dest: py_lt_not_nan)

text \<open>Each of the six extrema is a fold over the coordinates of its axis.\<close>

lemma fold_min_x: "min_x (foldl upd_vertex b vs) = foldl py_min (min_x b) (map fst vs)"
  by (induction vs arbitrary: b) auto
lemma fold_max_x: "max_x (foldl upd_vertex b vs) = foldl py_max (max_x b) (map fst vs)"
  by (induction vs arbitrary: b) auto
lemma fold_min_y: "min_y (foldl upd_vertex b vs) = foldl py_min (min_y b) (map (fst \<circ> snd) vs)"
  by (induction vs arbitrary: b) auto
lemma fold_max_y: "max_y (foldl upd_vertex b vs) = foldl py_max (max_y b) (map (fst \<circ> snd) vs)"
  by (induction vs arbitrary: b) auto
lemma fold_min_z: "min_z (foldl upd_vertex b vs) = foldl py_min (min_z b) (map (snd \<circ> snd) vs)"
  by (induction vs arbitrary: b) auto
lemma fold_max_z: "max_z (foldl upd_vertex b vs) = foldl py_max (max_z b) (map (snd \<circ> snd) vs)"
  by (induction vs arbitrary: b) auto

subsection \<open>Reads\<close>

lemma f_read_content [simp]: "content (snd (f_read n f)) = content f"
  by (simp add: f_read_def Let_def)

lemma f_read_content': "f_read n f = (d, f') \<Longrightarrow> content f' = content f"
  by (auto simp: f_read_def Let_def)

lemma f_read_pos: "pos (snd (f_read n f)) = min (pos f + n) (max (pos f) (length (content f)))"
  by (auto simp: f_read_def Let_def)

lemma f_read_full:
  "pos f + n \<le> length (content f) \<Longrightarrow>
   f_read n f = (take n (drop (pos f) (content f)), f\<lparr>pos := pos f + n\<rparr>)"
  by (simp add: f_read_def Let_def)

lemma unpack_fff_full:
  "q + 12 \<le> length c \<Longrightarrow> unpack_fff (take 12 (drop q c)) = Inr (vertex_at c q)"
  by (simp add: unpack_fff_def vertex_at_def take_drop add.commute)

lemma unpack_fff_short: "length d < 12 \<Longrightarrow> unpack_fff d = Inl StructError"
  by (simp add: unpack_fff_def)

subsection \<open>The loops of analyze\_stl.py\<close>

text \<open>
  The loop over the triangles gets through exactly when the 48 bytes of normal and
  vertices of every record are there; otherwise it ends with \<^verbatim>\<open>struct.error\<close>.
\<close>

lemma vertex_loop_content [simp]: "content (snd (vertex_loop k f b)) = content f"
proof (induction k arbitrary: f b)
  case 0
  then show ?case by simp
next
  case (Suc k)
  show ?case
    using Suc.IH [of "snd (f_read 12 f)"]
    by (auto split: prod.splits sum.splits dest: f_read_content')
qed

lemma vertex_loop3_ok:
  assumes "pos f + 36 \<le> length (content f)"
  shows "vertex_loop 3 f b =
    (Inr (upd_vertex (upd_vertex (upd_vertex b (vertex_at (content f) (pos f)))
            (vertex_at (content f) (pos f + 12))) (vertex_at (content f) (pos f + 24))),
     f\<lparr>pos := pos f + 36\<rparr>)"
proof -
  let ?c = "content f" and ?p = "pos f"
  let ?f1 = "f\<lparr>pos := ?p + 12\<rparr>" and ?f2 = "f\<lparr>pos := ?p + 24\<rparr>"
  have r0: "f_read 12 f = (take 12 (drop ?p ?c), ?f1)"
    using assms by (simp add: f_read_full)
  have r1: "f_read 12 ?f1 = (take 12 (drop (?p + 12) ?c), ?f2)"
    using assms by (simp add: f_read_full)
  have r2: "f_read 12 ?f2 = (take 12 (drop (?p + 24) ?c), f\<lparr>pos := ?p + 36\<rparr>)"
    using assms by (simp add: f_read_full)
  have u0: "unpack_fff (take 12 (drop ?p ?c)) = Inr (vertex_at ?c ?p)"
    using assms by (simp add: unpack_fff_full)
  have u1: "unpack_fff (take 12 (drop (?p + 12) ?c)) = Inr (vertex_at ?c (?p + 12))"
    using assms by (simp add: unpack_fff_full)
  have u2: "unpack_fff (take 12 (drop (?p + 24) ?c)) = Inr (vertex_at ?c (?p + 24))"
    using assms by (simp add: unpack_fff_full)
  show ?thesis
    by (simp add: numeral_3_eq_3 r0 r1 r2 u0 u1 u2)
qed

lemma vertex_loop_fail:
  "pos f \<le> length (content f) \<Longrightarrow> length (content f) < pos f + 12 * k \<Longrightarrow>
   fst (vertex_loop k f b) = Inl StructError"
proof (induction k arbitrary: f b)
  case 0
  then show ?case by simp
next
  case (Suc k)
  obtain d f1 where r: "f_read 12 f = (d, f1)" by (cases "f_read 12 f")
  show ?case
  proof (cases "length d < 12")
    case True
    then show ?thesis using r by (simp add: unpack_fff_short)
  next
    case False
    then have full: "pos f + 12 \<le> length (content f)"
      using r by (auto simp: f_read_def Let_def)
    then have f1: "f1 = f\<lparr>pos := pos f + 12\<rparr>" and d: "d = take 12 (drop (pos f) (content f))"
      using r by (simp_all add: f_read_full)
    have "pos f1 \<le> length (content f1)" "length (content f1) < pos f1 + 12 * k"
      using Suc.prems f1 full by simp_all
    from Suc.IH [OF this] show ?thesis
      using r d full by (simp add: unpack_fff_full)
  qed
qed

lemma triangle_loop_content [simp]: "content (snd (triangle_loop k f b)) = content f"
proof (induction k arbitrary: f b)
  case 0
  then show ?case by simp
next
  case (Suc k)
  obtain n f1 where r1: "f_read 12 f = (n, f1)" by (cases "f_read 12 f")
  obtain r f2 where v: "vertex_loop 3 f1 b = (r, f2)" by (cases "vertex_loop 3 f1 b")
  obtain a f3 where r3: "f_read 2 f2 = (a, f3)" by (cases "f_read 2 f2")
  have c1: "content f1 = content f" using r1 by (rule f_read_content')
  have c2: "content f2 = content f1" using vertex_loop_content [of 3 f1 b] v by simp
  have c3: "content f3 = content f2" using r3 by (rule f_read_content')
  show ?case
    using r1 v r3 c1 c2 c3 Suc.IH [of f3] by (cases r) simp_all
qed

lemma triangle_loop_step:
  assumes "pos f + 48 \<le> length (content f)"
  shows "triangle_loop (Suc k) f b =
    triangle_loop k (snd (f_read 2 (f\<lparr>pos := pos f + 48\<rparr>)))
      (foldl upd_vertex b (verts_from (content f) (pos f) 1))"
proof -
  let ?f1 = "f\<lparr>pos := pos f + 12\<rparr>"
  have r1: "f_read 12 f = (take 12 (drop (pos f) (content f)), ?f1)"
    using assms by (simp add: f_read_full)
  have v: "vertex_loop 3 ?f1 b =
    (Inr (foldl upd_vertex b (verts_from (content f) (pos f) 1)), f\<lparr>pos := pos f + 48\<rparr>)"
    using assms vertex_loop3_ok [of ?f1 b] by (simp add: add.assoc)
  show ?thesis
    by (simp add: r1 v split: prod.splits)
qed

lemma verts_from_Suc:
  "verts_from c q (Suc k) = verts_from c q 1 @ verts_from c (q + 50) k"
  by simp

lemma triangle_loop_ok:
  "(\<forall>i<k. pos f + 50 * i + 48 \<le> length (content f)) \<Longrightarrow>
   fst (triangle_loop k f b) = Inr (foldl upd_vertex b (verts_from (content f) (pos f) k))"
proof (induction k arbitrary: f b)
  case 0
  then show ?case by simp
next
  case (Suc k)
  have a0: "pos f + 48 \<le> length (content f)" using Suc.prems by force
  let ?f3 = "snd (f_read 2 (f\<lparr>pos := pos f + 48\<rparr>))"
  let ?b = "foldl upd_vertex b (verts_from (content f) (pos f) 1)"
  have step: "triangle_loop (Suc k) f b = triangle_loop k ?f3 ?b"
    using a0 by (rule triangle_loop_step)
  show ?case
  proof (cases k)
    case 0
    then show ?thesis using step by simp
  next
    case (Suc j)
    have "pos f + 50 * 1 + 48 \<le> length (content f)"
      using Suc.prems Suc by (metis Suc_less_eq zero_less_Suc One_nat_def)
    then have p3: "pos ?f3 = pos f + 50" by (simp add: f_read_pos)
    have "\<forall>i<k. pos ?f3 + 50 * i + 48 \<le> length (content ?f3)"
    proof (intro allI impI)
      fix i assume "i < k"
      then have "pos f + 50 * Suc i + 48 \<le> length (content f)"
        using Suc.prems by (meson Suc_less_eq)
      then show "pos ?f3 + 50 * i + 48 \<le> length (content ?f3)"
        using p3 by simp
    qed
    from Suc.IH [OF this, of ?b] show ?thesis
      unfolding step verts_from_Suc [of _ _ k] by (simp add: p3)
  qed
qed

lemma triangle_loop_pos:
  "pos f + 50 * k \<le> length (content f) \<Longrightarrow> pos (snd (triangle_loop k f b)) = pos f + 50 * k"
proof (induction k arbitrary: f b)
  case 0
  then show ?case by simp
next
  case (Suc k)
  have a0: "pos f + 48 \<le> length (content f)" using Suc.prems by simp
  let ?f3 = "snd (f_read 2 (f\<lparr>pos := pos f + 48\<rparr>))"
  have p3: "pos ?f3 = pos f + 50" using Suc.prems by (simp add: f_read_pos)
  have "pos ?f3 + 50 * k \<le> length (content ?f3)" using Suc.prems p3 by simp
  from Suc.IH [OF this] show ?case
    unfolding triangle_loop_step [OF a0] using p3 by simp
qed

lemma triangle_loop_fail:
  "pos f \<le> length (content f) \<Longrightarrow> \<exists>i<k. length (content f) < pos f + 50 * i + 48 \<Longrightarrow>
   fst (triangle_loop k f b) = Inl StructError"
proof (induction k arbitrary: f b)
  case 0
  then show ?case by simp
next
  case (Suc k)
  show ?case
  proof (cases "pos f + 48 \<le> length (content f)")
    case False
    obtain n f1 where r1: "f_read 12 f = (n, f1)" by (cases "f_read 12 f")
    have c1: "content f1 = content f" using r1 by (rule f_read_content')
    have p1: "pos f1 = min (pos f + 12) (length (content f))"
      using f_read_pos [of 12 f] r1 Suc.prems(1) by simp
    have "fst (vertex_loop 3 f1 b) = Inl StructError"
      using False c1 p1 by (intro vertex_loop_fail) auto
    then show ?thesis using r1 by (cases "vertex_loop 3 f1 b") simp
  next
    case True
    let ?f3 = "snd (f_read 2 (f\<lparr>pos := pos f + 48\<rparr>))"
    have p3: "pos ?f3 = min (pos f + 50) (length (content f))"
      using True by (simp add: f_read_pos)
    obtain i where i: "i < Suc k" "length (content f) < pos f + 50 * i + 48"
      using Suc.prems(2) by blast
    then obtain j where j: "i = Suc j" using True by (cases i) auto
    have "j < k \<and> length (content ?f3) < pos ?f3 + 50 * j + 48"
      using i j p3 by auto
    then have "\<exists>i<k. length (content ?f3) < pos ?f3 + 50 * i + 48" by blast
    moreover have "pos ?f3 \<le> length (content ?f3)" using p3 by simp
    ultimately show ?thesis
      unfolding triangle_loop_step [OF True] by (rule Suc.IH [rotated])
  qed
qed

subsection \<open>The loops of check\_single\_stl.py do the same\<close>

lemma gi_upd_lists: "gi_upd (lists_of b) [x, y, z] = lists_of (upd_vertex b (x, y, z))"
  by (simp add: gi_upd_def lists_of_def upt_rec numeral_3_eq_3)

lemma gi_vertex_loop_eq:
  "gi_vertex_loop k f (lists_of b) =
     (case vertex_loop k f b of (r, f') \<Rightarrow> (map_sum id lists_of r, f'))"
proof (induction k arbitrary: f b)
  case 0
  then show ?case by simp
next
  case (Suc k)
  obtain d f1 where r: "f_read 12 f = (d, f1)" by (cases "f_read 12 f")
  show ?case
  proof (cases "unpack_fff d")
    case (Inl e)
    then show ?thesis using r by (simp add: unpack_3f_def)
  next
    case (Inr v)
    obtain x y z where v: "v = (x, y, z)" by (cases v)
    show ?thesis
      using r Inr v Suc.IH [of f1 "upd_vertex b (x, y, z)"]
      by (simp add: unpack_3f_def gi_upd_lists)
  qed
qed

lemma gi_triangle_loop_eq:
  "gi_triangle_loop k f (lists_of b) =
     (case triangle_loop k f b of (r, f') \<Rightarrow> (map_sum id lists_of r, f'))"
proof (induction k arbitrary: f b)
  case 0
  then show ?case by simp
next
  case (Suc k)
  obtain n f1 where r1: "f_read 12 f = (n, f1)" by (cases "f_read 12 f")
  obtain r f2 where v: "vertex_loop 3 f1 b = (r, f2)" by (cases "vertex_loop 3 f1 b")
  show ?case
  proof (cases r)
    case (Inl e)
    then show ?thesis using r1 v by (simp add: gi_vertex_loop_eq)
  next
    case (Inr b')
    obtain a f3 where r3: "f_read 2 f2 = (a, f3)" by (cases "f_read 2 f2")
    show ?thesis
      using r1 v Inr r3 Suc.IH [of f3 b'] by (simp add: gi_vertex_loop_eq)
  qed
qed

lemma lists_of_bbox0: "(replicate 3 PInf, replicate 3 NInf) = lists_of bbox0"
  by (simp add: lists_of_def bbox0_def numeral_3_eq_3)

lemma gi_scan_eq:
  "gi_scan f =
     (case analyze_scan f of
        (Inl e, out, f') \<Rightarrow> (Inl e, f')
      | (Inr (n, b), out, f') \<Rightarrow>
          (Inr (n, [min_x b, min_y b, min_z b], [max_x b, max_y b, max_z b]), f'))"
  unfolding gi_scan_def analyze_scan_def lists_of_bbox0 gi_triangle_loop_eq
  by (auto simp: lists_of_def split: prod.splits sum.splits)

lemma extracts_iff: "extracts f n b \<longleftrightarrow> fst (analyze_scan f) = Inr (n, b)"
  unfolding extracts_def gi_scan_eq by (auto split: prod.splits sum.splits)

lemma fails_iff: "fails f e \<longleftrightarrow> fst (analyze_scan f) = Inl e"
  unfolding fails_def gi_scan_eq by (auto split: prod.splits sum.splits)

lemma gi_scan_file: "snd (gi_scan f) = snd (snd (analyze_scan f))"
  unfolding gi_scan_eq by (auto split: prod.splits sum.splits)

subsection \<open>A whole scan\<close>

lemma header_reads:
  assumes "pos f = 0" "84 \<le> length (content f)"
  shows "f_read 80 f = (take 80 (content f), f\<lparr>pos := 80\<rparr>)"
    and "f_read 4 (f\<lparr>pos := 80\<rparr>) = (take 4 (drop 80 (content f)), f\<lparr>pos := 84\<rparr>)"
  using assms by (simp_all add: f_read_full)

lemma analyze_scan_long:
  assumes "pos f = 0" "84 \<le> length (content f)"
  shows "analyze_scan f =
    (case triangle_loop (stl_count (content f)) (f\<lparr>pos := 84\<rparr>) bbox0 of
       (Inl e, f3) \<Rightarrow> (Inl e, [NumTriangles (stl_count (content f))], f3)
     | (Inr b, f3) \<Rightarrow>
         (Inr (stl_count (content f), b), [NumTriangles (stl_count (content f))], f3))"
  unfolding stl_count_def using assms
  by (simp add: analyze_scan_def header_reads unpack_I_def)

lemma analyze_scan_short:
  assumes "pos f = 0" "length (content f) < 84"
  shows "analyze_scan f = (Inl StructError, [], f\<lparr>pos := length (content f)\<rparr>)"
proof -
  obtain h f1 where r1: "f_read 80 f = (h, f1)" by (cases "f_read 80 f")
  obtain d f2 where r2: "f_read 4 f1 = (d, f2)" by (cases "f_read 4 f1")
  have c1: "content f1 = content f" using r1 by (rule f_read_content')
  have p1: "pos f1 = min 80 (length (content f))"
    using f_read_pos [of 80 f] r1 assms by simp
  have p2: "pos f2 = length (content f)"
    using f_read_pos [of 4 f1] r2 c1 p1 assms by simp
  have d: "length d < 4" using r2 c1 p1 assms by (auto simp: f_read_def Let_def)
  have "f2 = f\<lparr>pos := length (content f)\<rparr>"
    using r1 r2 p2 by (auto simp: f_read_def Let_def)
  then show ?thesis using r1 r2 d by (simp add: analyze_scan_def unpack_I_def)
qed

lemma scan_ok:
  assumes "pos f = 0" "84 \<le> length (content f)"
    and "\<forall>i < stl_count (content f). 84 + 50 * i + 48 \<le> length (content f)"
  shows "extracts f (stl_count (content f)) (stl_bbox (content f))"
proof -
  let ?g = "f\<lparr>pos := 84\<rparr>"
  have "\<forall>i < stl_count (content f). pos ?g + 50 * i + 48 \<le> length (content ?g)"
    using assms(3) by simp
  from triangle_loop_ok [OF this, of bbox0]
  have "fst (triangle_loop (stl_count (content f)) ?g bbox0) = Inr (stl_bbox (content f))"
    by (simp add: stl_bbox_def stl_verts_def)
  then show ?thesis
    unfolding extracts_iff analyze_scan_long [OF assms(1,2)]
    by (auto split: prod.splits sum.splits)
qed

lemma scan_fail:
  assumes "pos f = 0"
    and "length (content f) < 84 \<or> length (content f) + 2 < 84 + 50 * stl_count (content f)"
  shows "fails f StructError"
proof (cases "length (content f) < 84")
  case True
  then show ?thesis unfolding fails_iff using assms(1) by (simp add: analyze_scan_short)
next
  case False
  let ?g = "f\<lparr>pos := 84\<rparr>" and ?n = "stl_count (content f)"
  have big: "length (content f) + 2 < 84 + 50 * ?n" using assms(2) False by simp
  obtain m where m: "?n = Suc m" using big False by (cases ?n) auto
  have "m < ?n \<and> length (content ?g) < pos ?g + 50 * m + 48"
    using big m by simp
  then have "\<exists>i < ?n. length (content ?g) < pos ?g + 50 * i + 48" by blast
  moreover have "pos ?g \<le> length (content ?g)" using False by simp
  ultimately have "fst (triangle_loop ?n ?g bbox0) = Inl StructError"
    by (rule triangle_loop_fail [rotated])
  then show ?thesis
    unfolding fails_iff using False assms(1)
    by (auto simp: analyze_scan_long split: prod.splits sum.splits)
qed

lemma opened_sel [simp]:
  "fname (opened name c) = name" "content (opened name c) = c"
  "pos (opened name c) = 0" "closed (opened name c) = False"
  by (simp_all add: opened_def)

subsection \<open>Synthesized files\<close>

lemma length_pack_u32 [simp]: "length (pack_u32 w) = 4"
  by (simp add: pack_u32_def Let_def)

lemma length_pack_vec3 [simp]: "length (pack_vec3 v) = 12"
  by (cases v) simp

lemma length_mk_facet [simp]: "length (mk_facet t) = 50"
  by (simp add: mk_facet_def)

lemma le_nat_bytes4:
  assumes "n < 2 ^ 32"
  shows "n mod 256 + 256 * (n div 256 mod 256 + 256 * (n div 65536 mod 256 + 256 * (n div 16777216 mod 256))) = (n::nat)"
proof -
  have a: "n div 16777216 mod 256 = n div 16777216" using assms by (simp add: less_mult_imp_div_less)
  have b: "n div 65536 = n div 256 div 256" by (simp add: div_mult2_eq)
  have c: "n div 16777216 = n div 256 div 256 div 256" by (simp add: div_mult2_eq)
  show ?thesis unfolding a unfolding b c by (simp add: mod_div_mult_eq)
qed

lemma le_nat_of_nat4:
  "le_nat [of_nat n, of_nat (n div 2 ^ 8), of_nat (n div 2 ^ 16), of_nat (n div 2 ^ 24)] =
   n mod 256 + 256 * (n div 256 mod 256 + 256 * (n div 65536 mod 256 + 256 * (n div 16777216 mod 256)))"
  by (simp add: le_nat_def unat_of_nat)

lemma le_nat_pack_u32 [simp]: "le_nat (pack_u32 w) = unat w"
proof -
  have "unat w < 2 ^ 32" using unsigned_less [of w, where ?'a = nat] by simp
  from le_nat_bytes4 [OF this] show ?thesis
    unfolding pack_u32_def Let_def le_nat_of_nat4 .
qed

lemma vertex_at_pack:
  "vertex_at (pre @ pack_vec3 v @ post) (length pre) = vec3_val v"
  by (cases v) (simp add: vertex_at_def f32_val_def)

lemma vertex_at_shift:
  "vertex_at (pre @ c) (length pre + q) = vertex_at c q"
  by (simp add: vertex_at_def add.assoc)

lemma verts_from_shift:
  "verts_from (pre @ c) (length pre + q) k = verts_from c q k"
proof (induction k arbitrary: q)
  case 0
  then show ?case by simp
next
  case (Suc k)
  show ?case using Suc.IH [of "q + 50"] vertex_at_shift [of pre c]
    by (simp add: add.assoc)
qed

lemma verts_from_facets:
  "verts_from (concat (map mk_facet tris)) 0 (length tris) = concat (map facet_verts tris)"
proof (induction tris)
  case Nil
  then show ?case by simp
next
  case (Cons t ts)
  let ?rest = "concat (map mk_facet ts)"
  have 1: "vertex_at (mk_facet t @ ?rest) 12 = vec3_val (v1 t)"
    using vertex_at_pack [of "pack_vec3 (normal t)" "v1 t"]
    by (simp add: mk_facet_def)
  have 2: "vertex_at (mk_facet t @ ?rest) 24 = vec3_val (v2 t)"
    using vertex_at_pack [of "pack_vec3 (normal t) @ pack_vec3 (v1 t)" "v2 t"]
    by (simp add: mk_facet_def)
  have 3: "vertex_at (mk_facet t @ ?rest) 36 = vec3_val (v3 t)"
    using vertex_at_pack [of "pack_vec3 (normal t) @ pack_vec3 (v1 t) @ pack_vec3 (v2 t)" "v3 t"]
    by (simp add: mk_facet_def)
  have 4: "verts_from (mk_facet t @ ?rest) 50 (length ts) = concat (map facet_verts ts)"
    using verts_from_shift [of "mk_facet t" ?rest 0 "length ts"] Cons.IH by simp
  have 5: "facet_verts t = [vec3_val (v1 t), vec3_val (v2 t), vec3_val (v3 t)]"
    by (simp add: facet_verts_def)
  show ?case by (simp add: 1 2 3 4 5)
qed

lemma length_concat_facets: "length (concat (map mk_facet tris)) = 50 * length tris"
  by (induction tris) simp_all

lemma mk_stl_length: "length header = 80 \<Longrightarrow> length (mk_stl header tris) = 84 + 50 * length tris"
  by (simp add: mk_stl_def length_concat_facets)

lemma mk_stl_count:
  "length header = 80 \<Longrightarrow> length tris < 2 ^ 32 \<Longrightarrow> stl_count (mk_stl header tris) = length tris"
  by (simp add: mk_stl_def stl_count_def unat_of_nat)

lemma mk_stl_verts:
  assumes "length header = 80" "length tris < 2 ^ 32"
  shows "stl_verts (mk_stl header tris) = concat (map facet_verts tris)"
proof -
  let ?pre = "header @ pack_u32 (of_nat (length tris))"
  have "verts_from (?pre @ concat (map mk_facet tris)) (length ?pre + 0) (length tris) =
        concat (map facet_verts tris)"
    unfolding verts_from_shift by (rule verts_from_facets)
  then show ?thesis
    using assms by (simp add: stl_verts_def mk_stl_count) (simp add: mk_stl_def)
qed

subsection \<open>What the folds leave on one axis\<close>

lemma axis_span_fold:
  assumes "axis_span xs lo hi"
  shows "py_eq (foldl py_min PInf xs) lo \<and> py_eq (foldl py_max NInf xs) hi"
proof -
  let ?m = "foldl py_min PInf xs" and ?M = "foldl py_max NInf xs"
  from assms obtain x0 x1 where x0: "x0 \<in> set xs" "py_eq x0 lo" and x1: "x1 \<in> set xs" "py_eq x1 hi"
    and all: "\<forall>x\<in>set xs. py_le lo x \<and> py_le x hi"
    unfolding axis_span_def by blast
  have nlo: "\<not> is_nan lo" and nhi: "\<not> is_nan hi" and n0: "\<not> is_nan x0" and n1: "\<not> is_nan x1"
    using x0 x1 py_eq_not_nan by blast+
  have "py_le ?m x0" using x0(1) n0 by (intro foldl_min_le_elem) simp_all
  then have a: "py_le ?m lo" using x0(2) py_le_eq_trans by blast
  have b: "py_le lo ?m"
    using foldl_min_cases [of PInf xs] all nlo by (auto simp: py_le_PInf)
  have "py_le x1 ?M" using x1(1) n1 by (intro foldl_max_ge_elem) simp_all
  then have c: "py_le hi ?M" using x1(2) py_eq_sym py_eq_le_trans by blast
  have d: "py_le ?M hi"
    using foldl_max_cases [of NInf xs] all nhi by (auto simp: py_le_NInf)
  show ?thesis using a b c d py_le_antisym by blast
qed

lemma axis_ok_fold: "axis_ok xs (foldl py_min PInf xs) (foldl py_max NInf xs)"
proof (cases "\<forall>x\<in>set xs. is_nan x")
  case True
  then show ?thesis by (simp add: axis_ok_def foldl_min_all_nan foldl_max_all_nan)
next
  case False
  then obtain x where x: "x \<in> set xs" "\<not> is_nan x" by blast
  have "py_le (foldl py_min PInf xs) x" using x by (intro foldl_min_le_elem) simp_all
  moreover have "py_le x (foldl py_max NInf xs)" using x by (intro foldl_max_ge_elem) simp_all
  ultimately have "py_le (foldl py_min PInf xs) (foldl py_max NInf xs)" by (rule py_le_trans)
  with False show ?thesis unfolding axis_ok_def by auto
qed

lemma stl_bbox_sel:
  "min_x (stl_bbox c) = foldl py_min PInf (map fst (stl_verts c))"
  "max_x (stl_bbox c) = foldl py_max NInf (map fst (stl_verts c))"
  "min_y (stl_bbox c) = foldl py_min PInf (map (fst \<circ> snd) (stl_verts c))"
  "max_y (stl_bbox c) = foldl py_max NInf (map (fst \<circ> snd) (stl_verts c))"
  "min_z (stl_bbox c) = foldl py_min PInf (map (snd \<circ> snd) (stl_verts c))"
  "max_z (stl_bbox c) = foldl py_max NInf (map (snd \<circ> snd) (stl_verts c))"
  by (simp_all add: stl_bbox_def fold_min_x fold_max_x fold_min_y fold_max_y fold_min_z fold_max_z bbox0_def)

lemma well_formed_reads:
  "well_formed c \<Longrightarrow> 84 \<le> length c \<and> (\<forall>i < stl_count c. 84 + 50 * i + 48 \<le> length c)"
proof -
  assume wf: "well_formed c"
  have "84 + 50 * i + 48 \<le> length c" if "i < stl_count c" for i
  proof -
    have "50 * i + 50 \<le> 50 * stl_count c" using that by simp
    then show ?thesis using wf by (simp add: well_formed_def)
  qed
  then show ?thesis using wf by (simp add: well_formed_def)
qed

lemma foldl_gi_upd:
  "foldl gi_upd (lists_of b) (map (\<lambda>(x, y, z). [x, y, z]) vs) = lists_of (foldl upd_vertex b vs)"
  by (induction vs arbitrary: b) (auto simp: gi_upd_lists)

subsection \<open>The extrema depend on the vertex bytes only\<close>

lemma slice4:
  "t + 4 \<le> 36 \<Longrightarrow> take 4 (drop t (take 36 (drop p c))) = take 4 (drop (p + t) c)"
  by (simp add: drop_take add.commute)

lemma vertex_at_slice:
  "t + 12 \<le> 36 \<Longrightarrow> vertex_at (take 36 (drop p c)) t = vertex_at c (p + t)"
  by (simp add: vertex_at_def slice4 add.assoc)

lemma verts_from_slices:
  "verts_from c q k =
     concat (map (\<lambda>i. verts_of_bytes (take 36 (drop (q + 50 * i + 12) c))) [0 ..< k])"
proof (induction k arbitrary: q)
  case 0
  then show ?case by simp
next
  case (Suc k)
  have shift: "map (\<lambda>i. verts_of_bytes (take 36 (drop (q + 50 * i + 12) c))) [Suc 0 ..< Suc k] =
        map (\<lambda>i. verts_of_bytes (take 36 (drop (q + 50 + 50 * i + 12) c))) [0 ..< k]"
    unfolding map_Suc_upt [symmetric] by (simp add: add.assoc add.commute add.left_commute)
  have first: "verts_of_bytes (take 36 (drop (q + 12) c)) =
      [vertex_at c (q + 12), vertex_at c (q + 24), vertex_at c (q + 36)]"
    using vertex_at_slice [of 0 "q + 12" c] vertex_at_slice [of 12 "q + 12" c]
      vertex_at_slice [of 24 "q + 12" c]
    by (simp add: verts_of_bytes_def add.assoc)
  show ?case
    unfolding upt_conv_Cons [OF zero_less_Suc] using Suc.IH [of "q + 50"]
    by (simp add: shift first del: upt_Suc)
qed

lemma stl_verts_slices:
  "stl_verts c = concat (map (\<lambda>i. verts_of_bytes (vertex_bytes c i)) [0 ..< stl_count c])"
  by (simp add: stl_verts_def verts_from_slices vertex_bytes_def)

lemma scan_agree:
  assumes "84 \<le> length c1" and "84 \<le> length c2"
    and "take 4 (drop 80 c1) = take 4 (drop 80 c2)"
    and "\<forall>i < stl_count c1. 84 + 50 * i + 48 \<le> length c1 \<and> 84 + 50 * i + 48 \<le> length c2 \<and>
           vertex_bytes c1 i = vertex_bytes c2 i"
  shows "extracts (opened n1 c1) (stl_count c1) (stl_bbox c1) \<and>
         extracts (opened n2 c2) (stl_count c1) (stl_bbox c1)"
proof -
  have cnt: "stl_count c2 = stl_count c1" using assms(3) by (simp add: stl_count_def)
  have "stl_verts c2 = stl_verts c1"
    unfolding stl_verts_slices cnt using assms(4) by (auto intro!: arg_cong [where f = concat])
  then have bb: "stl_bbox c2 = stl_bbox c1" by (simp add: stl_bbox_def)
  have "extracts (opened n1 c1) (stl_count c1) (stl_bbox c1)"
    using scan_ok [of "opened n1 c1"] assms(1,4) by simp
  moreover have "extracts (opened n2 c2) (stl_count c2) (stl_bbox c2)"
    using scan_ok [of "opened n2 c2"] assms(2,4) cnt by simp
  ultimately show ?thesis by (simp add: cnt bb)
qed

subsection \<open>Whole runs\<close>

lemma with_open_Some:
  "fs name = Some c \<Longrightarrow>
   with_open fs name body =
     (case body (opened name c) of
        (r, out, f') \<Rightarrow> \<lparr>outcome = r, stdout = out, files = [f'\<lparr>closed := True\<rparr>]\<rparr>)"
  by (simp add: with_open_def py_open_def)

lemma analyze_scan_out:
  "fst (analyze_scan f) = Inr (n, b) \<Longrightarrow> fst (snd (analyze_scan f)) = [NumTriangles n]"
  by (auto simp: analyze_scan_def split: prod.splits sum.splits)

lemma analyze_stl_ok:
  assumes "fs name = Some c" and "fst (analyze_scan (opened name c)) = Inr (n, b)"
  shows "outcome (analyze_stl fsub fs [prog, name]) = Inr ()"
    and "stdout (analyze_stl fsub fs [prog, name]) = NumTriangles n # analyze_report fsub b"
  using assms analyze_scan_out [OF assms(2)]
  by (auto simp: analyze_stl_def with_open_Some analyze_body_def split: prod.splits sum.splits)

lemma analyze_stl_fail:
  assumes "fs name = Some c" and "fst (analyze_scan (opened name c)) = Inl e"
  shows "outcome (analyze_stl fsub fs [prog, name]) = Inl e"
    and "stdout (analyze_stl fsub fs [prog, name]) = fst (snd (analyze_scan (opened name c)))"
  using assms
  by (auto simp: analyze_stl_def with_open_Some analyze_body_def split: prod.splits sum.splits)

lemma get_info_ok:
  assumes "fs name = Some c" and "fst (gi_scan (opened name c)) = Inr (n, mins, maxs)"
  shows "outcome (get_info fsub fs name) = Inr ()"
    and "stdout (get_info fsub fs name) = gi_report fsub name n mins maxs"
  using assms
  by (auto simp: get_info_def with_open_Some gi_body_def split: prod.splits sum.splits)

lemma get_info_fail:
  assumes "fs name = Some c" and "fst (gi_scan (opened name c)) = Inl e"
  shows "outcome (get_info fsub fs name) = Inl e"
    and "stdout (get_info fsub fs name) = []"
  using assms
  by (auto simp: get_info_def with_open_Some gi_body_def split: prod.splits sum.splits)

lemma analyze_scan_out_long:
  "84 \<le> length c \<Longrightarrow> fst (snd (analyze_scan (opened name c))) = [NumTriangles (stl_count c)]"
  by (simp add: analyze_scan_long split: prod.splits sum.splits)

lemma analyze_scan_count:
  "84 \<le> length c \<Longrightarrow> fst (analyze_scan (opened name c)) = Inr (n, b) \<Longrightarrow> n = stl_count c"
  by (auto simp: analyze_scan_long split: prod.splits sum.splits)

lemma analyze_scan_pos:
  assumes "well_formed c"
  shows "pos (snd (snd (analyze_scan (opened name c)))) = 84 + 50 * stl_count c"
proof -
  let ?g = "(opened name c)\<lparr>pos := 84\<rparr>"
  have len: "84 \<le> length c" using assms by (simp add: well_formed_def)
  have "pos ?g + 50 * stl_count c \<le> length (content ?g)"
    using assms by (simp add: well_formed_def)
  from triangle_loop_pos [OF this, of bbox0]
  show ?thesis using len by (auto simp: analyze_scan_long split: prod.splits sum.splits)
qed

lemma f_read_eof: "pos f = length (content f) \<Longrightarrow> f_read n f = ([], f)"
  by (simp add: f_read_def)

lemma triangle_loop_eof:
  "pos f = length (content f) \<Longrightarrow> triangle_loop (Suc k) f b = (Inl StructError, f)"
  by (simp add: f_read_eof numeral_3_eq_3 unpack_fff_def)

lemma prefix_slice:
  "p + n \<le> length t \<Longrightarrow> take n (drop p (t @ r)) = take n (drop p t)"
  by simp

lemma runs_agree:
  assumes "fs1 name = Some c1" and "fs2 name = Some c2"
    and "extracts (opened name c1) n b" and "extracts (opened name c2) n b"
  shows "outcome (analyze_stl fsub fs1 [prog, name]) = outcome (analyze_stl fsub fs2 [prog, name]) \<and>
     stdout (analyze_stl fsub fs1 [prog, name]) = stdout (analyze_stl fsub fs2 [prog, name]) \<and>
     outcome (get_info fsub fs1 name) = outcome (get_info fsub fs2 name) \<and>
     stdout (get_info fsub fs1 name) = stdout (get_info fsub fs2 name)"
proof (intro conjI)
  have a1: "fst (analyze_scan (opened name c1)) = Inr (n, b)"
    and a2: "fst (analyze_scan (opened name c2)) = Inr (n, b)"
    and g1: "fst (gi_scan (opened name c1)) = Inr (n, [min_x b, min_y b, min_z b], [max_x b, max_y b, max_z b])"
    and g2: "fst (gi_scan (opened name c2)) = Inr (n, [min_x b, min_y b, min_z b], [max_x b, max_y b, max_z b])"
    using assms(3,4) by (simp_all add: extracts_def)
  show "outcome (analyze_stl fsub fs1 [prog, name]) = outcome (analyze_stl fsub fs2 [prog, name])"
    using analyze_stl_ok(1) [where fs = fs1 and name = name and c = c1, OF assms(1) a1]
      analyze_stl_ok(1) [where fs = fs2 and name = name and c = c2, OF assms(2) a2] by simp
  show "stdout (analyze_stl fsub fs1 [prog, name]) = stdout (analyze_stl fsub fs2 [prog, name])"
    using analyze_stl_ok(2) [where fs = fs1 and name = name and c = c1, OF assms(1) a1]
      analyze_stl_ok(2) [where fs = fs2 and name = name and c = c2, OF assms(2) a2] by simp
  show "outcome (get_info fsub fs1 name) = outcome (get_info fsub fs2 name)"
    using get_info_ok(1) [where fs = fs1 and name = name and c = c1, OF assms(1) g1]
      get_info_ok(1) [where fs = fs2 and name = name and c = c2, OF assms(2) g2] by simp
  show "stdout (get_info fsub fs1 name) = stdout (get_info fsub fs2 name)"
    using get_info_ok(2) [where fs = fs1 and name = name and c = c1, OF assms(1) g1]
      get_info_ok(2) [where fs = fs2 and name = name and c = c2, OF assms(2) g2] by simp
qed

subsection \<open>File objects and the directory scan\<close>

lemma f_read_fname: "f_read n f = (d, f') \<Longrightarrow> fname f' = fname f"
  by (auto simp: f_read_def Let_def)

lemma vertex_loop_fname [simp]: "fname (snd (vertex_loop k f b)) = fname f"
proof (induction k arbitrary: f b)
  case 0
  then show ?case by simp
next
  case (Suc k)
  show ?case
    using Suc.IH [of "snd (f_read 12 f)"]
    by (auto split: prod.splits sum.splits dest: f_read_fname)
qed

lemma triangle_loop_fname [simp]: "fname (snd (triangle_loop k f b)) = fname f"
proof (induction k arbitrary: f b)
  case 0
  then show ?case by simp
next
  case (Suc k)
  obtain n f1 where r1: "f_read 12 f = (n, f1)" by (cases "f_read 12 f")
  obtain r f2 where v: "vertex_loop 3 f1 b = (r, f2)" by (cases "vertex_loop 3 f1 b")
  obtain a f3 where r3: "f_read 2 f2 = (a, f3)" by (cases "f_read 2 f2")
  have c1: "fname f1 = fname f" using r1 by (rule f_read_fname)
  have c2: "fname f2 = fname f1" using vertex_loop_fname [of 3 f1 b] v by simp
  have c3: "fname f3 = fname f2" using r3 by (rule f_read_fname)
  show ?case
    using r1 v r3 c1 c2 c3 Suc.IH [of f3] by (cases r) simp_all
qed

lemma triangle_loop_kept:
  "triangle_loop k f b = (r, f') \<Longrightarrow> fname f' = fname f \<and> content f' = content f"
  using triangle_loop_fname [of k f b] triangle_loop_content [of k f b] by simp

lemma analyze_scan_kept:
  "fname (snd (snd (analyze_scan f))) = fname f \<and> content (snd (snd (analyze_scan f))) = content f"
proof -
  obtain h f1 where r1: "f_read 80 f = (h, f1)" by (cases "f_read 80 f")
  obtain d f2 where r2: "f_read 4 f1 = (d, f2)" by (cases "f_read 4 f1")
  have "fname f2 = fname f \<and> content f2 = content f"
    using r1 r2 f_read_fname f_read_content' by metis
  then show ?thesis
    using r1 r2
    by (auto simp: analyze_scan_def split: prod.splits sum.splits dest: triangle_loop_kept)
qed

lemma body_kept:
  "fname (snd (snd (analyze_body fsub f))) = fname f \<and>
   content (snd (snd (analyze_body fsub f))) = content f"
  "fname (snd (snd (gi_body fsub f))) = fname f \<and>
   content (snd (snd (gi_body fsub f))) = content f"
  using analyze_scan_kept [of f] gi_scan_file [of f]
  by (auto simp: analyze_body_def gi_body_def split: prod.splits sum.splits)

lemma with_open_closed: "\<forall>f\<in>set (files (with_open fs name body)). closed f"
  by (auto simp: with_open_def split: sum.splits prod.splits)

lemma get_info_None:
  "fs name = None \<Longrightarrow>
   get_info fsub fs name = \<lparr>outcome = Inl OSError, stdout = [], files = []\<rparr>"
  by (simp add: get_info_def with_open_def py_open_def)

lemma get_info_Some:
  assumes "fs name = Some c"
  shows "\<exists>g. files (get_info fsub fs name) = [g] \<and> fname g = name \<and> content g = c \<and> closed g"
proof -
  obtain r out f' where b: "gi_body fsub (opened name c) = (r, out, f')"
    by (cases "gi_body fsub (opened name c)")
  have "fname f' = name \<and> content f' = c" using body_kept(2) [of fsub "opened name c"] b by simp
  then show ?thesis using assms b by (simp add: get_info_def with_open_Some)
qed

lemma scan_loop_closed: "\<forall>f\<in>set (files (scan_loop fsub fs d names)). closed f"
proof (induction names)
  case Nil
  then show ?case by simp
next
  case (Cons f rest)
  have "\<forall>g\<in>set (files (get_info fsub fs (path_join d f))). closed g"
    unfolding get_info_def by (rule with_open_closed)
  then show ?case using Cons.IH
    by (auto simp: Let_def split: sum.splits)
qed

lemma scan_loop_files:
  "prefix (map fname (files (scan_loop fsub fs d names)))
     (map (path_join d) (filter (\<lambda>f. endswith f ''.stl'') names)) \<and>
   (outcome (scan_loop fsub fs d names) = Inr () \<longrightarrow>
      map fname (files (scan_loop fsub fs d names)) =
      map (path_join d) (filter (\<lambda>f. endswith f ''.stl'') names))"
proof (induction names)
  case Nil
  then show ?case by simp
next
  case (Cons f rest)
  show ?case
  proof (cases "endswith f ''.stl''")
    case False
    then show ?thesis using Cons.IH by simp
  next
    case True
    let ?r = "get_info fsub fs (path_join d f)"
    show ?thesis
    proof (cases "fs (path_join d f)")
      case None
      then show ?thesis using True by (simp add: get_info_None)
    next
      case (Some c)
      from get_info_Some [where fs = fs and name = "path_join d f" and c = c, OF Some, of fsub]
      obtain g where g: "files ?r = [g]" "fname g = path_join d f" by blast
      show ?thesis
      proof (cases "outcome ?r")
        case (Inl e)
        then show ?thesis using True g by (simp add: Let_def)
      next
        case (Inr u)
        then show ?thesis using True g Cons.IH by (simp add: Let_def)
      qed
    qed
  qed
qed

lemma with_open_None:
  "fs name = None \<Longrightarrow>
   with_open fs name body = \<lparr>outcome = Inl OSError, stdout = [], files = []\<rparr>"
  by (simp add: with_open_def py_open_def)

lemma analyze_run_ok:
  assumes "outcome (with_open fs name (analyze_body fsub)) = Inr ()"
  shows "\<exists>c n b. fs name = Some c \<and> fst (analyze_scan (opened name c)) = Inr (n, b) \<and>
           stdout (with_open fs name (analyze_body fsub)) = NumTriangles n # analyze_report fsub b"
proof (cases "fs name")
  case None
  then show ?thesis using assms by (simp add: with_open_None)
next
  case (Some c)
  show ?thesis
  proof (cases "fst (analyze_scan (opened name c))")
    case (Inl e)
    then show ?thesis
      using assms Some
      by (auto simp: with_open_Some analyze_body_def split: prod.splits sum.splits)
  next
    case (Inr nb)
    obtain n b where nb: "nb = (n, b)" by (cases nb)
    have "fst (snd (analyze_scan (opened name c))) = [NumTriangles n]"
      using Inr nb by (simp add: analyze_scan_out)
    then show ?thesis
      using Some Inr nb
      by (auto simp: with_open_Some analyze_body_def split: prod.splits sum.splits)
  qed
qed

lemma get_info_run_ok:
  assumes "outcome (get_info fsub fs name) = Inr ()"
  shows "\<exists>c n mins maxs. fs name = Some c \<and>
           fst (gi_scan (opened name c)) = Inr (n, mins, maxs) \<and>
           stdout (get_info fsub fs name) = gi_report fsub name n mins maxs"
proof (cases "fs name")
  case None
  then show ?thesis using assms by (simp add: get_info_None)
next
  case (Some c)
  then show ?thesis
    using assms
    by (auto simp: get_info_def with_open_Some gi_body_def split: prod.splits sum.splits)
qed

subsection \<open>The example inputs\<close>

lemma stl_count_eval:
  "length h = 80 \<Longrightarrow> stl_count (h @ a # b # c # d # rest) = le_nat [a, b, c, d]"
  by (simp add: stl_count_def)

lemma ex_short_count: "stl_count ex_short = 1"
  by (simp add: ex_short_def stl_count_eval le_nat_def)

lemma ex_short_length: "length ex_short = 132"
  by (simp add: ex_short_def)

lemma ex_stl_count: "stl_count ex_stl = 1"
  by (simp add: ex_stl_def ex_short_def stl_count_eval le_nat_def)

lemma ex_stl_length: "length ex_stl = 134"
  by (simp add: ex_stl_def ex_short_def)

lemma ex_short_verts:
  "stl_verts ex_short =
     [(Fin False 1, Fin True 2, Fin False 0),
      (Fin False 2, Fin False 1, Fin False (1 / 2)),
      (Fin False 0, Fin False 0, Fin True 1)]"
  by (simp add: stl_verts_def ex_short_count vertex_at_def)
     (simp add: ex_short_def f32_of_bits_def le_nat_def Let_def)

lemma ex_stl_verts: "stl_verts ex_stl = stl_verts ex_short"
  by (simp add: stl_verts_def ex_short_count ex_stl_count vertex_at_def)
     (simp add: ex_stl_def ex_short_def)

lemma ex_short_bbox: "stl_bbox ex_short = ex_box"
  by (simp add: stl_bbox_def ex_short_verts bbox0_def py_min_def py_max_def fin_val_def ex_box_def)

lemma ex_stl_bbox: "stl_bbox ex_stl = ex_box"
  using ex_short_bbox by (simp add: stl_bbox_def ex_stl_verts)

section \<open>The claims\<close>

text \<open>
  C1. A file synthesized from an 80-byte header and K facets (K below \<open>2 ^ 32\<close>, so
  that the count field can hold it) whose vertex coordinates span the box \<open>B\<close>: both
  scripts get through their loops with the count K and extrema that are equal to the
  six bounds of \<open>B\<close> under the equality of floats.
\<close>

theorem round_trip_exact_box:
  assumes "length header = 80" and "length tris < 2 ^ 32"
    and "spans (concat (map facet_verts tris)) B"
  shows "\<exists>b. extracts (opened name (mk_stl header tris)) (length tris) b \<and> box_eq b B"
proof -
  let ?c = "mk_stl header tris"
  have cnt: "stl_count ?c = length tris" using assms(1,2) by (rule mk_stl_count)
  have "well_formed ?c" using assms(1) by (simp add: well_formed_def cnt mk_stl_length)
  then have "extracts (opened name ?c) (stl_count ?c) (stl_bbox ?c)"
    using scan_ok [of "opened name ?c"] well_formed_reads [of ?c] by simp
  moreover have "box_eq (stl_bbox ?c) B"
    using assms(3) axis_span_fold
    unfolding box_eq_def spans_def stl_bbox_sel mk_stl_verts [OF assms(1,2)] by blast
  ultimately show ?thesis using cnt by auto
qed

theorem round_trip_exact_box_witness:
  "length ex_header = 80 \<and> length [ex_facet] < (2::nat) ^ 32 \<and>
   spans (concat (map facet_verts [ex_facet])) ex_box \<and>
   (\<exists>b. extracts (opened ''a.stl'' (mk_stl ex_header [ex_facet])) (length [ex_facet]) b \<and>
        box_eq b ex_box)"
proof -
  have h1: "length ex_header = 80" by (simp add: ex_header_def)
  have h2: "length [ex_facet] < (2::nat) ^ 32" by simp
  have h3: "spans (concat (map facet_verts [ex_facet])) ex_box"
    by (simp add: spans_def axis_span_def facet_verts_def ex_facet_def ex_box_def f32_val_def
        f32_of_bits_def Let_def py_le_def fin_val_def)
  show ?thesis
    using h1 h2 h3 round_trip_exact_box [OF h1 h2 h3, of "''a.stl''"] by blast
qed

text \<open>
  C2. On a well-formed file both scripts get through their loops. With the
  count zero the six extrema are the initial infinities. On each axis the minimum is
  at most the maximum when some vertex coordinate of that axis is not a NaN; when all
  of them are NaN, the minimum is still plus infinity and the maximum minus infinity.
\<close>

theorem well_formed_min_le_max:
  assumes "well_formed c"
  shows "\<exists>b. extracts (opened name c) (stl_count c) b \<and>
           (stl_count c = 0 \<longrightarrow> b = bbox0) \<and>
           axis_ok (map fst (stl_verts c)) (min_x b) (max_x b) \<and>
           axis_ok (map (fst \<circ> snd) (stl_verts c)) (min_y b) (max_y b) \<and>
           axis_ok (map (snd \<circ> snd) (stl_verts c)) (min_z b) (max_z b)"
proof -
  have 1: "extracts (opened name c) (stl_count c) (stl_bbox c)"
    using scan_ok [of "opened name c"] well_formed_reads [OF assms] by simp
  have 2: "stl_count c = 0 \<longrightarrow> stl_bbox c = bbox0"
    by (simp add: stl_bbox_def stl_verts_def)
  have 3: "axis_ok (map fst (stl_verts c)) (min_x (stl_bbox c)) (max_x (stl_bbox c))"
    "axis_ok (map (fst \<circ> snd) (stl_verts c)) (min_y (stl_bbox c)) (max_y (stl_bbox c))"
    "axis_ok (map (snd \<circ> snd) (stl_verts c)) (min_z (stl_bbox c)) (max_z (stl_bbox c))"
    unfolding stl_bbox_sel by (rule axis_ok_fold)+
  show ?thesis
    by (intro exI [of _ "stl_bbox c"] conjI) (fact 1 2 3)+
qed

theorem well_formed_min_le_max_witness:
  "well_formed ex_stl \<and>
   (\<exists>b. extracts (opened ''a.stl'' ex_stl) 1 b \<and>
        py_le (min_x b) (max_x b) \<and> py_le (min_y b) (max_y b) \<and> py_le (min_z b) (max_z b))"
proof -
  have wf: "well_formed ex_stl" by (simp add: well_formed_def ex_stl_count ex_stl_length)
  from well_formed_min_le_max [OF wf, of "''a.stl''"]
  obtain b where b: "extracts (opened ''a.stl'' ex_stl) (stl_count ex_stl) b"
    and x: "axis_ok (map fst (stl_verts ex_stl)) (min_x b) (max_x b)"
    and y: "axis_ok (map (fst \<circ> snd) (stl_verts ex_stl)) (min_y b) (max_y b)"
    and z: "axis_ok (map (snd \<circ> snd) (stl_verts ex_stl)) (min_z b) (max_z b)"
    by blast
  have "py_le (min_x b) (max_x b)" using x by (simp add: axis_ok_def ex_stl_verts ex_short_verts)
  moreover have "py_le (min_y b) (max_y b)" using y by (simp add: axis_ok_def ex_stl_verts ex_short_verts)
  moreover have "py_le (min_z b) (max_z b)" using z by (simp add: axis_ok_def ex_stl_verts ex_short_verts)
  ultimately show ?thesis using wf b by (auto simp: ex_stl_count)
qed

text \<open>
  The file \<open>ex_nan\<close> is well formed and its count is 1, yet on every axis the minimum
  stays plus infinity and the maximum minus infinity.
\<close>

theorem nan_file_min_gt_max:
  "well_formed ex_nan \<and> stl_count ex_nan = 1 \<and>
   extracts (opened ''nan.stl'' ex_nan) 1 bbox0 \<and> \<not> py_le (min_x bbox0) (max_x bbox0)"
proof -
  have cnt: "stl_count ex_nan = 1" by (simp add: ex_nan_def stl_count_def le_nat_def)
  have len: "length ex_nan = 134" by (simp add: ex_nan_def)
  have vs: "stl_verts ex_nan = [(NaN, NaN, NaN), (NaN, NaN, NaN), (NaN, NaN, NaN)]"
    by (simp add: stl_verts_def cnt vertex_at_def)
       (simp add: ex_nan_def f32_of_bits_def le_nat_def Let_def)
  have bb: "stl_bbox ex_nan = bbox0"
    by (simp add: stl_bbox_def vs py_min_def py_max_def) (simp add: bbox0_def)
  have "extracts (opened ''nan.stl'' ex_nan) (stl_count ex_nan) (stl_bbox ex_nan)"
    using scan_ok [of "opened ''nan.stl'' ex_nan"] by (simp add: cnt len)
  then show ?thesis
    by (simp add: cnt bb well_formed_def len) (simp add: bbox0_def py_le_def)
qed

text \<open>
  C3. A file of fewer than 84 bytes, or of fewer than \<open>84 + 50 * N - 2\<close>
  bytes where \<open>N\<close> is its count field, makes both scripts end with \<^verbatim>\<open>struct.error\<close>
  and no bounding box is printed: \<^verbatim>\<open>analyze_stl.py\<close> has printed nothing, or the line of
  the count when the file has its 84 bytes, and \<^verbatim>\<open>get_info\<close> has printed nothing.
\<close>

theorem short_file_fails:
  assumes "length c < 84 \<or> length c + 2 < 84 + 50 * stl_count c" and "fs name = Some c"
  shows "fails (opened name c) StructError \<and>
         outcome (analyze_stl fsub fs [prog, name]) = Inl StructError \<and>
         stdout (analyze_stl fsub fs [prog, name]) =
           (if length c < 84 then [] else [NumTriangles (stl_count c)]) \<and>
         outcome (get_info fsub fs name) = Inl StructError \<and>
         stdout (get_info fsub fs name) = []"
proof -
  have f: "fails (opened name c) StructError"
    using scan_fail [of "opened name c"] assms(1) by simp
  then have a: "fst (analyze_scan (opened name c)) = Inl StructError"
    and g: "fst (gi_scan (opened name c)) = Inl StructError"
    by (simp_all add: fails_def)
  have out: "fst (snd (analyze_scan (opened name c))) =
      (if length c < 84 then [] else [NumTriangles (stl_count c)])"
    by (simp add: analyze_scan_short analyze_scan_out_long)
  show ?thesis
    using f out
      analyze_stl_fail [where fs = fs and name = name and c = c, OF assms(2) a]
      get_info_fail [where fs = fs and name = name and c = c, OF assms(2) g]
    by simp
qed

theorem short_file_fails_witness:
  "length ex_cut + 2 < 84 + 50 * stl_count ex_cut \<and>
   fails (opened ''a.stl'' ex_cut) StructError \<and>
   outcome (analyze_stl fsub_unrounded [''a.stl'' \<mapsto> ex_cut] [''analyze_stl.py'', ''a.stl'']) =
     Inl StructError \<and>
   stdout (analyze_stl fsub_unrounded [''a.stl'' \<mapsto> ex_cut] [''analyze_stl.py'', ''a.stl'']) =
     [NumTriangles 1] \<and>
   outcome (get_info fsub_unrounded [''a.stl'' \<mapsto> ex_cut] ''a.stl'') = Inl StructError \<and>
   stdout (get_info fsub_unrounded [''a.stl'' \<mapsto> ex_cut] ''a.stl'') = []"
proof -
  have cnt: "stl_count ex_cut = 1" by (simp add: ex_cut_def stl_count_eval le_nat_def)
  have len: "length ex_cut = 100" by (simp add: ex_cut_def)
  have h: "length ex_cut < 84 \<or> length ex_cut + 2 < 84 + 50 * stl_count ex_cut"
    unfolding cnt len by simp
  have fs: "[''a.stl'' \<mapsto> ex_cut] ''a.stl'' = Some ex_cut" by simp
  show ?thesis
    using short_file_fails [where fs = "[''a.stl'' \<mapsto> ex_cut]" and name = "''a.stl''",
        OF h fs, of fsub_unrounded "''analyze_stl.py''"]
    unfolding cnt len by simp
qed

text \<open>
  The file \<open>ex_short\<close> has 132 bytes, two fewer than \<open>84 + 50 * 1\<close>, and both scripts
  get through their loops on it.
\<close>

theorem missing_attribute_succeeds:
  "length ex_short = 132 \<and> stl_count ex_short = 1 \<and>
   length ex_short < 84 + 50 * stl_count ex_short \<and>
   extracts (opened ''a.stl'' ex_short) 1 ex_box"
proof -
  have "extracts (opened ''a.stl'' ex_short) (stl_count ex_short) (stl_bbox ex_short)"
    using scan_ok [of "opened ''a.stl'' ex_short"] by (simp add: ex_short_count ex_short_length)
  then show ?thesis by (simp add: ex_short_count ex_short_length ex_short_bbox)
qed

text \<open>
  C4. On a file of at least 84 bytes \<^verbatim>\<open>analyze_stl.py\<close> prints the count
  stored at bytes 80 to 83, and the count that \<^verbatim>\<open>get_info\<close> holds when its loops end
  is that number. When the file is well formed, both scripts get through their loops
  and have then read up to offset \<open>84 + 50 * N\<close>: exactly N records of 50 bytes.
\<close>

theorem count_field_and_records:
  assumes "84 \<le> length c"
  shows "fst (snd (analyze_scan (opened name c))) = [NumTriangles (stl_count c)] \<and>
         (\<forall>n mins maxs. fst (gi_scan (opened name c)) = Inr (n, mins, maxs) \<longrightarrow> n = stl_count c) \<and>
         (well_formed c \<longrightarrow>
            (\<exists>b. extracts (opened name c) (stl_count c) b) \<and>
            pos (snd (snd (analyze_scan (opened name c)))) = 84 + 50 * stl_count c \<and>
            pos (snd (gi_scan (opened name c))) = 84 + 50 * stl_count c)"
proof -
  have 1: "fst (snd (analyze_scan (opened name c))) = [NumTriangles (stl_count c)]"
    using assms by (rule analyze_scan_out_long)
  have 2: "\<forall>n mins maxs. fst (gi_scan (opened name c)) = Inr (n, mins, maxs) \<longrightarrow> n = stl_count c"
    using analyze_scan_count [OF assms, of name]
    unfolding gi_scan_eq by (auto split: prod.splits sum.splits)
  have 3: "\<exists>b. extracts (opened name c) (stl_count c) b" if "well_formed c"
    using scan_ok [of "opened name c"] well_formed_reads [OF that] by auto
  show ?thesis
    using 1 2 3 analyze_scan_pos [of c name] by (simp add: gi_scan_file)
qed

theorem count_field_and_records_witness:
  "84 \<le> length ex_stl \<and> well_formed ex_stl \<and>
   fst (snd (analyze_scan (opened ''a.stl'' ex_stl))) = [NumTriangles 1] \<and>
   (\<exists>b. extracts (opened ''a.stl'' ex_stl) 1 b) \<and>
   pos (snd (snd (analyze_scan (opened ''a.stl'' ex_stl)))) = 134 \<and>
   pos (snd (gi_scan (opened ''a.stl'' ex_stl))) = 134"
proof -
  have h: "84 \<le> length ex_stl" by (simp add: ex_stl_length)
  have wf: "well_formed ex_stl" by (simp add: well_formed_def ex_stl_count ex_stl_length)
  show ?thesis
    using h wf count_field_and_records [OF h, of "''a.stl''"] by (simp add: ex_stl_count)
qed

text \<open>
  The file \<open>ex_count_only\<close> has 84 bytes and the count 1. Both scripts stop at offset
  84 with \<^verbatim>\<open>struct.error\<close>: no record is read, and \<^verbatim>\<open>get_info\<close> reports no count.
\<close>

theorem count_without_records:
  "84 \<le> length ex_count_only \<and> stl_count ex_count_only = 1 \<and>
   analyze_scan (opened ''a.stl'' ex_count_only) =
     (Inl StructError, [NumTriangles 1], (opened ''a.stl'' ex_count_only)\<lparr>pos := 84\<rparr>) \<and>
   gi_scan (opened ''a.stl'' ex_count_only) =
     (Inl StructError, (opened ''a.stl'' ex_count_only)\<lparr>pos := 84\<rparr>)"
proof -
  let ?f = "opened ''a.stl'' ex_count_only"
  have len: "length ex_count_only = 84" by (simp add: ex_count_only_def)
  have cnt: "stl_count ex_count_only = 1"
    by (simp add: ex_count_only_def stl_count_def le_nat_def)
  have "triangle_loop (Suc 0) (?f\<lparr>pos := 84\<rparr>) bbox0 = (Inl StructError, ?f\<lparr>pos := 84\<rparr>)"
    by (rule triangle_loop_eof) (simp add: len)
  then have a: "analyze_scan ?f = (Inl StructError, [NumTriangles 1], ?f\<lparr>pos := 84\<rparr>)"
    by (simp add: analyze_scan_long len cnt)
  then show ?thesis by (simp add: len cnt gi_scan_eq)
qed

text \<open>
  C5. Without a file argument \<^verbatim>\<open>check_single_stl.py\<close> opens the names of
  the directory \<^verbatim>\<open>output\<close> that end in \<^verbatim>\<open>.stl\<close>, in ascending order of the sorted
  names, and skips the others. The files it has opened are an initial part of that
  list; when the run ends normally they are all of it, as many as the directory has
  names ending in \<^verbatim>\<open>.stl\<close>.
\<close>

theorem directory_scan_sorted:
  assumes "length argv \<le> 1" and "listdir ''output'' = Some names"
  shows "prefix (map fname (files (check_single_stl fsub fs listdir argv)))
           (map (path_join ''output'') (filter (\<lambda>f. endswith f ''.stl'') (sort names))) \<and>
         (outcome (check_single_stl fsub fs listdir argv) = Inr () \<longrightarrow>
            map fname (files (check_single_stl fsub fs listdir argv)) =
              map (path_join ''output'') (filter (\<lambda>f. endswith f ''.stl'') (sort names)) \<and>
            length (files (check_single_stl fsub fs listdir argv)) =
              length (filter (\<lambda>f. endswith f ''.stl'') names))"
proof -
  have run: "check_single_stl fsub fs listdir argv = scan_loop fsub fs ''output'' (sort names)"
    using assms by (simp add: check_single_stl_def)
  have len: "length (filter (\<lambda>f. endswith f ''.stl'') (sort names)) =
        length (filter (\<lambda>f. endswith f ''.stl'') names)"
    by (simp add: filter_sort)
  show ?thesis
    unfolding run using scan_loop_files [of fsub fs "''output''" "sort names"] len
    by (metis length_map)
qed

theorem directory_scan_sorted_witness:
  "outcome (check_single_stl fsub_unrounded ex_dir_fs ex_listdir [''check_single_stl.py'']) = Inr () \<and>
   map fname (files (check_single_stl fsub_unrounded ex_dir_fs ex_listdir [''check_single_stl.py''])) =
     [''output/a.stl'', ''output/b.stl'']"
proof -
  let ?fsub = fsub_unrounded
  let ?r = "check_single_stl ?fsub ex_dir_fs ex_listdir [''check_single_stl.py'']"
  have a: "length [''check_single_stl.py''] \<le> 1" by simp
  have l: "ex_listdir ''output'' = Some [''b.stl'', ''notes.txt'', ''a.stl'']"
    by (simp add: ex_listdir_def)
  have cnt: "stl_count ex_empty = 0" by (simp add: ex_empty_def stl_count_eval le_nat_def)
  have len: "length ex_empty = 84" by (simp add: ex_empty_def)
  have e: "extracts (opened n ex_empty) (stl_count ex_empty) (stl_bbox ex_empty)" for n
    using scan_ok [of "opened n ex_empty"] by (simp add: cnt len)
  have g: "outcome (get_info ?fsub ex_dir_fs n) = Inr ()" if "ex_dir_fs n = Some ex_empty" for n
    using get_info_ok(1) [where fs = ex_dir_fs and name = n and c = ex_empty, OF that] e [of n]
    by (simp add: extracts_def)
  have ga: "outcome (get_info ?fsub ex_dir_fs ''output/a.stl'') = Inr ()"
    by (rule g) (simp add: ex_dir_fs_def)
  have gb: "outcome (get_info ?fsub ex_dir_fs ''output/b.stl'') = Inr ()"
    by (rule g) (simp add: ex_dir_fs_def)
  have o: "outcome ?r = Inr ()"
    by (simp add: check_single_stl_def l endswith_def path_join_def ga gb Let_def)
  show ?thesis
    using o directory_scan_sorted [where listdir = ex_listdir
        and names = "[''b.stl'', ''notes.txt'', ''a.stl'']", OF a l, of ?fsub ex_dir_fs]
    by (simp add: endswith_def path_join_def)
qed

text \<open>
  The listing gives \<^verbatim>\<open>b.stl\<close> first, and \<^verbatim>\<open>a.stl\<close> is opened first.
\<close>

theorem directory_scan_not_listing_order:
  "ex_listdir ''output'' = Some [''b.stl'', ''notes.txt'', ''a.stl''] \<and>
   map fname (files (check_single_stl fsub_unrounded ex_dir_fs ex_listdir [''check_single_stl.py''])) =
     [''output/a.stl'', ''output/b.stl'']"
proof -
  let ?fsub = fsub_unrounded
  let ?r = "check_single_stl ?fsub ex_dir_fs ex_listdir [''check_single_stl.py'']"
  have l: "ex_listdir ''output'' = Some [''b.stl'', ''notes.txt'', ''a.stl'']"
    by (simp add: ex_listdir_def)
  have cnt: "stl_count ex_empty = 0" by (simp add: ex_empty_def stl_count_eval le_nat_def)
  have len: "length ex_empty = 84" by (simp add: ex_empty_def)
  have e: "extracts (opened n ex_empty) (stl_count ex_empty) (stl_bbox ex_empty)" for n
    using scan_ok [of "opened n ex_empty"] by (simp add: cnt len)
  have g: "outcome (get_info ?fsub ex_dir_fs n) = Inr () \<and>
      map fname (files (get_info ?fsub ex_dir_fs n)) = [n]" if "ex_dir_fs n = Some ex_empty" for n
    using get_info_ok(1) [where fs = ex_dir_fs and name = n and c = ex_empty, OF that] e [of n]
      get_info_Some [where fs = ex_dir_fs and name = n and c = ex_empty, OF that, of ?fsub]
    by (auto simp: extracts_def)
  have ga: "outcome (get_info ?fsub ex_dir_fs ''output/a.stl'') = Inr () \<and>
      map fname (files (get_info ?fsub ex_dir_fs ''output/a.stl'')) = [''output/a.stl'']"
    by (rule g) (simp add: ex_dir_fs_def)
  have gb: "outcome (get_info ?fsub ex_dir_fs ''output/b.stl'') = Inr () \<and>
      map fname (files (get_info ?fsub ex_dir_fs ''output/b.stl'')) = [''output/b.stl'']"
    by (rule g) (simp add: ex_dir_fs_def)
  show ?thesis
    by (simp add: check_single_stl_def l endswith_def path_join_def ga gb Let_def)
qed

text \<open>
  C6. Whatever vertices have been consumed, one more vertex leaves each minimum at
  most what it was and each maximum at least what it was, in the six variables of
  \<^verbatim>\<open>analyze_stl.py\<close> and in the two lists of \<^verbatim>\<open>check_single_stl.py\<close>.
\<close>

theorem extrema_monotone:
  "(let b = foldl upd_vertex bbox0 vs; b' = upd_vertex b v
    in py_le (min_x b') (min_x b) \<and> py_le (max_x b) (max_x b') \<and>
       py_le (min_y b') (min_y b) \<and> py_le (max_y b) (max_y b') \<and>
       py_le (min_z b') (min_z b) \<and> py_le (max_z b) (max_z b')) \<and>
   (let mm = foldl gi_upd (replicate 3 PInf, replicate 3 NInf) (map (\<lambda>(x, y, z). [x, y, z]) vs);
        mm' = gi_upd mm (case v of (x, y, z) \<Rightarrow> [x, y, z])
    in list_all2 py_le (fst mm') (fst mm) \<and> list_all2 py_le (snd mm) (snd mm'))"
proof -
  let ?b = "foldl upd_vertex bbox0 vs"
  obtain x y z where v: "v = (x, y, z)" by (cases v)
  have nn: "\<not> is_nan (min_x ?b)" "\<not> is_nan (max_x ?b)" "\<not> is_nan (min_y ?b)"
    "\<not> is_nan (max_y ?b)" "\<not> is_nan (min_z ?b)" "\<not> is_nan (max_z ?b)"
    unfolding fold_min_x fold_max_x fold_min_y fold_max_y fold_min_z fold_max_z
    by (simp_all add: bbox0_def foldl_min_not_nan foldl_max_not_nan)
  have A: "py_le (min_x (upd_vertex ?b v)) (min_x ?b) \<and> py_le (max_x ?b) (max_x (upd_vertex ?b v)) \<and>
       py_le (min_y (upd_vertex ?b v)) (min_y ?b) \<and> py_le (max_y ?b) (max_y (upd_vertex ?b v)) \<and>
       py_le (min_z (upd_vertex ?b v)) (min_z ?b) \<and> py_le (max_z ?b) (max_z (upd_vertex ?b v))"
    using nn by (simp add: v py_min_le_old py_max_ge_old)
  have B: "foldl gi_upd (replicate 3 PInf, replicate 3 NInf) (map (\<lambda>(x, y, z). [x, y, z]) vs) =
      lists_of ?b"
    unfolding lists_of_bbox0 by (rule foldl_gi_upd)
  show ?thesis
    unfolding B Let_def using A by (simp add: v gi_upd_lists) (simp add: lists_of_def)
qed
text \<open>
  C7. Two well-formed files that agree on the count field and on the 36 vertex bytes of
  every record, and differ in any way in the header, the normals, the attribute bytes
  or what follows the last record: both scripts hold the same count and the same
  extrema on both, and print the same lines.
\<close>

theorem ignored_bytes_do_not_matter:
  assumes "well_formed c1" and "well_formed c2"
    and "take 4 (drop 80 c1) = take 4 (drop 80 c2)"
    and "\<forall>i < stl_count c1. vertex_bytes c1 i = vertex_bytes c2 i"
    and "fs1 name = Some c1" and "fs2 name = Some c2"
  shows "(\<exists>n b. extracts (opened name c1) n b \<and> extracts (opened name c2) n b) \<and>
         outcome (analyze_stl fsub fs1 [prog, name]) = outcome (analyze_stl fsub fs2 [prog, name]) \<and>
         stdout (analyze_stl fsub fs1 [prog, name]) = stdout (analyze_stl fsub fs2 [prog, name]) \<and>
         outcome (get_info fsub fs1 name) = outcome (get_info fsub fs2 name) \<and>
         stdout (get_info fsub fs1 name) = stdout (get_info fsub fs2 name)"
proof -
  have cnt: "stl_count c2 = stl_count c1" using assms(3) by (simp add: stl_count_def)
  have "\<forall>i < stl_count c1. 84 + 50 * i + 48 \<le> length c1 \<and> 84 + 50 * i + 48 \<le> length c2 \<and>
           vertex_bytes c1 i = vertex_bytes c2 i"
    using well_formed_reads [OF assms(1)] well_formed_reads [OF assms(2)] assms(4) cnt by simp
  then have e: "extracts (opened name c1) (stl_count c1) (stl_bbox c1) \<and>
         extracts (opened name c2) (stl_count c1) (stl_bbox c1)"
    using well_formed_reads [OF assms(1)] well_formed_reads [OF assms(2)] assms(3)
    by (intro scan_agree) simp_all
  show ?thesis
    using e
      runs_agree [where ?fs1.0 = fs1 and ?fs2.0 = fs2 and name = name and ?c1.0 = c1 and ?c2.0 = c2,
        OF assms(5,6) conjunct1 [OF e] conjunct2 [OF e], of fsub prog]
    by blast
qed

theorem ignored_bytes_do_not_matter_witness:
  "well_formed ex_stl \<and> well_formed ex_other \<and> take 80 ex_stl \<noteq> take 80 ex_other \<and>
   (\<exists>n b. extracts (opened ''a.stl'' ex_stl) n b \<and> extracts (opened ''a.stl'' ex_other) n b) \<and>
   stdout (analyze_stl fsub_unrounded [''a.stl'' \<mapsto> ex_stl] [''analyze_stl.py'', ''a.stl'']) =
     stdout (analyze_stl fsub_unrounded [''a.stl'' \<mapsto> ex_other] [''analyze_stl.py'', ''a.stl'']) \<and>
   stdout (get_info fsub_unrounded [''a.stl'' \<mapsto> ex_stl] ''a.stl'') =
     stdout (get_info fsub_unrounded [''a.stl'' \<mapsto> ex_other] ''a.stl'')"
proof -
  have cnt: "stl_count ex_other = 1" by (simp add: ex_other_def stl_count_eval le_nat_def)
  have len: "length ex_other = 134" by (simp add: ex_other_def)
  have wf1: "well_formed ex_stl" by (simp add: well_formed_def ex_stl_count ex_stl_length)
  have wf2: "well_formed ex_other" by (simp add: well_formed_def cnt len)
  have c: "take 4 (drop 80 ex_stl) = take 4 (drop 80 ex_other)"
    by (simp add: ex_stl_def ex_short_def ex_other_def)
  have v: "\<forall>i < stl_count ex_stl. vertex_bytes ex_stl i = vertex_bytes ex_other i"
    by (simp add: ex_stl_count vertex_bytes_def) (simp add: ex_stl_def ex_short_def ex_other_def)
  have d: "take 80 ex_stl \<noteq> take 80 ex_other"
    by (simp add: ex_stl_def ex_short_def ex_other_def)
  have f1: "[''a.stl'' \<mapsto> ex_stl] ''a.stl'' = Some ex_stl" by simp
  have f2: "[''a.stl'' \<mapsto> ex_other] ''a.stl'' = Some ex_other" by simp
  show ?thesis
    using wf1 wf2 d
      ignored_bytes_do_not_matter [where ?fs1.0 = "[''a.stl'' \<mapsto> ex_stl]"
        and ?fs2.0 = "[''a.stl'' \<mapsto> ex_other]" and name = "''a.stl''",
        OF wf1 wf2 c v f1 f2, of fsub_unrounded "''analyze_stl.py''"]
    by blast
qed

text \<open>
  C8. When a run ends normally, the size printed for each axis is the difference
  \<open>fsub max min\<close> of the maximum and the minimum that the loops have left for that
  axis: in the three axis lines of \<^verbatim>\<open>analyze_stl.py\<close>, which also show the two extrema, and
  in the line of \<^verbatim>\<open>get_info\<close>.
\<close>

theorem size_is_max_minus_min:
  "(outcome (analyze_stl fsub fs argv) = Inr () \<longrightarrow>
     (\<exists>name c n b. fs name = Some c \<and> fst (analyze_scan (opened name c)) = Inr (n, b) \<and>
        stdout (analyze_stl fsub fs argv) =
          [NumTriangles n, BoundingBox,
           AxisLine CHR ''X'' (min_x b) (max_x b) (fsub (max_x b) (min_x b)),
           AxisLine CHR ''Y'' (min_y b) (max_y b) (fsub (max_y b) (min_y b)),
           AxisLine CHR ''Z'' (min_z b) (max_z b) (fsub (max_z b) (min_z b))])) \<and>
   (outcome (get_info fsub fs name) = Inr () \<longrightarrow>
     (\<exists>c n mins maxs. fs name = Some c \<and>
        fst (gi_scan (opened name c)) = Inr (n, mins, maxs) \<and>
        stdout (get_info fsub fs name) =
          [NameLine (basename name),
           InfoLine n (fsub (maxs ! 0) (mins ! 0)) (fsub (maxs ! 1) (mins ! 1))
             (fsub (maxs ! 2) (mins ! 2))]))"
proof (intro conjI impI)
  assume "outcome (analyze_stl fsub fs argv) = Inr ()"
  then show "\<exists>name c n b. fs name = Some c \<and> fst (analyze_scan (opened name c)) = Inr (n, b) \<and>
        stdout (analyze_stl fsub fs argv) =
          [NumTriangles n, BoundingBox,
           AxisLine CHR ''X'' (min_x b) (max_x b) (fsub (max_x b) (min_x b)),
           AxisLine CHR ''Y'' (min_y b) (max_y b) (fsub (max_y b) (min_y b)),
           AxisLine CHR ''Z'' (min_z b) (max_z b) (fsub (max_z b) (min_z b))]"
    unfolding analyze_stl_def Let_def
    using analyze_run_ok [of fs _ fsub] by (fastforce simp: analyze_report_def)
next
  assume "outcome (get_info fsub fs name) = Inr ()"
  from get_info_run_ok [OF this]
  show "\<exists>c n mins maxs. fs name = Some c \<and>
        fst (gi_scan (opened name c)) = Inr (n, mins, maxs) \<and>
        stdout (get_info fsub fs name) =
          [NameLine (basename name),
           InfoLine n (fsub (maxs ! 0) (mins ! 0)) (fsub (maxs ! 1) (mins ! 1))
             (fsub (maxs ! 2) (mins ! 2))]"
    by (simp add: gi_report_def Let_def)
qed

text \<open>
  On \<open>ex_stl\<close> the sizes are \<open>2 - 0\<close>, \<open>1 - (-2)\<close> and \<open>0.5 - (-1)\<close>.
\<close>

theorem size_is_max_minus_min_witness:
  "outcome (analyze_stl fsub_unrounded [''a.stl'' \<mapsto> ex_stl] [''analyze_stl.py'', ''a.stl'']) =
     Inr () \<and>
   stdout (analyze_stl fsub_unrounded [''a.stl'' \<mapsto> ex_stl] [''analyze_stl.py'', ''a.stl'']) =
     [NumTriangles 1, BoundingBox,
      AxisLine CHR ''X'' (Fin False 0) (Fin False 2) (Fin False 2),
      AxisLine CHR ''Y'' (Fin True 2) (Fin False 1) (Fin False 3),
      AxisLine CHR ''Z'' (Fin True 1) (Fin False (1 / 2)) (Fin False (3 / 2))] \<and>
   outcome (get_info fsub_unrounded [''a.stl'' \<mapsto> ex_stl] ''a.stl'') = Inr () \<and>
   stdout (get_info fsub_unrounded [''a.stl'' \<mapsto> ex_stl] ''a.stl'') =
     [NameLine ''a.stl'', InfoLine 1 (Fin False 2) (Fin False 3) (Fin False (3 / 2))]"
proof -
  let ?fs = "[''a.stl'' \<mapsto> ex_stl]"
  let ?argv = "[''analyze_stl.py'', ''a.stl'']"
  have fs: "?fs ''a.stl'' = Some ex_stl" by simp
  have e: "extracts (opened ''a.stl'' ex_stl) 1 ex_box"
    using scan_ok [of "opened ''a.stl'' ex_stl"]
    by (simp add: ex_stl_count ex_stl_length ex_stl_bbox)
  then have a: "fst (analyze_scan (opened ''a.stl'' ex_stl)) = Inr (1, ex_box)"
    and g: "fst (gi_scan (opened ''a.stl'' ex_stl)) =
      Inr (1, [min_x ex_box, min_y ex_box, min_z ex_box], [max_x ex_box, max_y ex_box, max_z ex_box])"
    by (simp_all add: extracts_def)
  have oa: "outcome (analyze_stl fsub_unrounded ?fs ?argv) = Inr ()"
    using analyze_stl_ok(1) [where fs = ?fs and name = "''a.stl''" and c = ex_stl, OF fs a] .
  have og: "outcome (get_info fsub_unrounded ?fs ''a.stl'') = Inr ()"
    using get_info_ok(1) [where fs = ?fs and name = "''a.stl''" and c = ex_stl, OF fs g] .
  have only: "?fs name = Some c \<longleftrightarrow> name = ''a.stl'' \<and> c = ex_stl" for name c
    by (auto split: if_splits)
  show ?thesis
    using oa og size_is_max_minus_min [of fsub_unrounded ?fs ?argv "''a.stl''"]
    unfolding only by (auto simp: a g ex_box_def basename_def fin_val_def)
qed

text \<open>
  C9. Every file object that a run of either script has created is closed when the
  run ends, whether the run ended normally or with an exception: for \<^verbatim>\<open>analyze_stl.py\<close>,
  for \<^verbatim>\<open>check_single_stl.py\<close> and for one call of \<^verbatim>\<open>get_info\<close>. When the file exists,
  the call of \<^verbatim>\<open>get_info\<close> has created exactly one file object, on that file.
\<close>

theorem file_closed_on_every_path:
  "(\<forall>f\<in>set (files (analyze_stl fsub fs argv)). closed f) \<and>
   (\<forall>f\<in>set (files (check_single_stl fsub fs listdir argv)). closed f) \<and>
   (\<forall>f\<in>set (files (get_info fsub fs name)). closed f) \<and>
   (\<forall>c. fs name = Some c \<longrightarrow>
      (\<exists>g. files (get_info fsub fs name) = [g] \<and> fname g = name \<and> content g = c \<and> closed g))"
proof -
  have 1: "\<forall>f\<in>set (files (analyze_stl fsub fs argv)). closed f"
    unfolding analyze_stl_def Let_def by (rule with_open_closed)
  have 3: "\<forall>f\<in>set (files (get_info fsub fs n)). closed f" for n
    unfolding get_info_def by (rule with_open_closed)
  have 2: "\<forall>f\<in>set (files (check_single_stl fsub fs listdir argv)). closed f"
    using 3 scan_loop_closed
    by (auto simp: check_single_stl_def Let_def split: option.splits)
  show ?thesis using 1 2 3 get_info_Some by blast
qed

text \<open>On the file \<open>ex_cut\<close>, cut inside its first vertex, the call ends with
  \<^verbatim>\<open>struct.error\<close> and its file object is closed.\<close>

theorem file_closed_on_every_path_witness:
  "outcome (get_info fsub_unrounded [''a.stl'' \<mapsto> ex_cut] ''a.stl'') = Inl StructError \<and>
   (\<exists>g. files (get_info fsub_unrounded [''a.stl'' \<mapsto> ex_cut] ''a.stl'') = [g] \<and>
        fname g = ''a.stl'' \<and> content g = ex_cut \<and> closed g)"
proof -
  let ?fs = "[''a.stl'' \<mapsto> ex_cut]"
  have cnt: "stl_count ex_cut = 1" by (simp add: ex_cut_def stl_count_eval le_nat_def)
  have len: "length ex_cut = 100" by (simp add: ex_cut_def)
  have fs: "?fs ''a.stl'' = Some ex_cut" by simp
  have "fails (opened ''a.stl'' ex_cut) StructError"
    using scan_fail [of "opened ''a.stl'' ex_cut"] by (simp add: cnt len)
  then have "fst (gi_scan (opened ''a.stl'' ex_cut)) = Inl StructError" by (simp add: fails_def)
  from get_info_fail(1) [where fs = ?fs and name = "''a.stl''" and c = ex_cut, OF fs this]
  have o: "outcome (get_info fsub_unrounded ?fs ''a.stl'') = Inl StructError" .
  show ?thesis
    using o fs file_closed_on_every_path [of fsub_unrounded ?fs "[]" Map.empty "''a.stl''"]
    by blast
qed

text \<open>
  C10. A file \<open>t\<close> cut from a file \<open>c\<close> so that the preamble and the vertex bytes of
  every record are still there (the cut can only fall in the attribute bytes of the
  last record, or behind them): both scripts get through their loops on \<open>t\<close> and on
  \<open>c\<close>, with the same count and the same extrema.
\<close>

theorem truncated_attribute_tolerated:
  assumes "prefix t c" and "84 \<le> length t"
    and "\<forall>i < stl_count t. 84 + 50 * i + 48 \<le> length t"
  shows "\<exists>b. extracts (opened name t) (stl_count c) b \<and> extracts (opened name c) (stl_count c) b"
proof -
  obtain r where c: "c = t @ r" using assms(1) by (auto simp: prefix_def)
  have cf: "take 4 (drop 80 t) = take 4 (drop 80 c)"
    unfolding c using assms(2) by (simp add: prefix_slice)
  then have cnt: "stl_count c = stl_count t" by (simp add: stl_count_def)
  have "\<forall>i < stl_count t. 84 + 50 * i + 48 \<le> length t \<and> 84 + 50 * i + 48 \<le> length c \<and>
           vertex_bytes t i = vertex_bytes c i"
  proof (intro allI impI)
    fix i assume "i < stl_count t"
    then have a: "84 + 50 * i + 48 \<le> length t" using assms(3) by blast
    have b: "84 + 50 * i + 48 \<le> length c" using a c by simp
    have e: "vertex_bytes t i = vertex_bytes c i"
      unfolding vertex_bytes_def c by (rule prefix_slice [symmetric]) (use a in simp)
    show "84 + 50 * i + 48 \<le> length t \<and> 84 + 50 * i + 48 \<le> length c \<and>
           vertex_bytes t i = vertex_bytes c i"
      using a b e by blast
  qed
  then have "extracts (opened name t) (stl_count t) (stl_bbox t) \<and>
         extracts (opened name c) (stl_count t) (stl_bbox t)"
    using assms(2) cf c by (intro scan_agree) simp_all
  then show ?thesis unfolding cnt by blast
qed

theorem truncated_attribute_tolerated_witness:
  "prefix ex_short ex_stl \<and> length ex_short = 132 \<and> length ex_stl = 134 \<and>
   stl_count ex_stl = 1 \<and>
   (\<exists>b. extracts (opened ''a.stl'' ex_short) 1 b \<and> extracts (opened ''a.stl'' ex_stl) 1 b)"
proof -
  have p: "prefix ex_short ex_stl" by (simp add: ex_stl_def)
  have l: "84 \<le> length ex_short" by (simp add: ex_short_length)
  have a: "\<forall>i < stl_count ex_short. 84 + 50 * i + 48 \<le> length ex_short"
    by (simp add: ex_short_count ex_short_length)
  show ?thesis
    using p truncated_attribute_tolerated [OF p l a, of "''a.stl''"]
    by (simp add: ex_short_length ex_stl_length ex_stl_count)
qed

end
